theory Spec2Isabelle
  imports Main "HOL-Library.Word"
begin

section \<open>simpleperf \<open>cmd_api.cpp\<close>: the api-prepare and api-collect commands\<close>

text \<open>
  The two command handlers of \<^verbatim>\<open>src/cmd_api.cpp\<close> are embedded as functions over an
  explicit world state. Everything the handlers reach outside the file (the option
  preprocessor, the package manager, system properties, the zip writer, the file
  system, the shell) is either a field of the environment record \<open>env\<close>, which fixes
  what each collaborator answers, or a small model written next to its use.
\<close>

subsection \<open>Expiration time (\<open>PrepareCommand::Run\<close>, lines 74-79)\<close>

type_synonym uint64_t = "64 word"
type_synonym uint32_t = "32 word"
type_synonym time_t = "64 word"

definition UINT64_MAX :: uint64_t where
  "UINT64_MAX = - 1"

text \<open>
  \<^verbatim>\<open>__builtin_mul_overflow(a, b, &res)\<close> and \<^verbatim>\<open>__builtin_add_overflow(a, b, &res)\<close>
  compute on the mathematical values of their operands, store the result cast to the
  type of \<open>res\<close> (here \<open>uint64_t\<close>) and return whether the stored value differs from
  the exact one.
\<close>

definition builtin_mul_overflow :: "int \<Rightarrow> int \<Rightarrow> bool \<times> uint64_t" where
  "builtin_mul_overflow a b =
     (let r = a * b; res = (word_of_int r :: uint64_t) in (uint res \<noteq> r, res))"

definition builtin_add_overflow :: "int \<Rightarrow> int \<Rightarrow> bool \<times> uint64_t" where
  "builtin_add_overflow a b =
     (let r = a + b; res = (word_of_int r :: uint64_t) in (uint res \<noteq> r, res))"

text \<open>
  \<open>days\<close> is the \<open>uint64_t\<close> field \<open>days_\<close>; \<open>now\<close> is what \<^verbatim>\<open>time(nullptr)\<close> returned,
  a signed 64-bit \<open>time_t\<close> read with \<open>sint\<close>. The \<^verbatim>\<open>||\<close> of the source does not
  evaluate the addition when the multiplication overflowed.
\<close>

definition expiration_time :: "uint64_t \<Rightarrow> time_t \<Rightarrow> uint64_t" where
  "expiration_time days now =
     (case builtin_mul_overflow (uint days) (24 * 3600) of
        (True, _) \<Rightarrow> UINT64_MAX
      | (False, duration_in_sec) \<Rightarrow>
          (case builtin_add_overflow (sint now) (uint duration_in_sec) of
             (True, _) \<Rightarrow> UINT64_MAX
           | (False, expiration) \<Rightarrow> expiration))"

subsection \<open>Options (\<open>command.h\<close>, not part of \<open>cmd_api.cpp\<close>)\<close>

text \<open>
  Modelled from the spec: the option types that \<open>command.h\<close> declares. A format is the
  triple \<open>{value type, cardinality, applicability-context}\<close> of the spec's option
  table; a parsed value carries the string and the unsigned integer reading of its
  argument, as the \<open>str_value\<close> and \<open>uint_value\<close> members the source reads.
\<close>

datatype OptionValueType = NONE | STRING | UINT

datatype OptionType = SINGLE | MULTIPLE | ORDERED

datatype AppRunnerType = NOT_ALLOWED | ALLOWED | CHECK_FD | CHECK_PATH

type_synonym OptionFormat = "OptionValueType \<times> OptionType \<times> AppRunnerType"

type_synonym OptionFormatMap = "(string \<times> OptionFormat) list"

record OptionValue =
  str_value :: string
  uint_value :: uint64_t

text \<open>\<open>OptionValueMap::values\<close> is a multimap from option name to value.\<close>

type_synonym OptionValueMap = "(string \<times> OptionValue) list"

text \<open>
  Modelled from the spec: \<open>OptionValueMap::PullValue\<close>, \<open>PullBoolValue\<close> and
  \<open>PullUintValue\<close> (\<open>command.h\<close>). "Consumers pull values out of the set by name, each
  pull removing the entry." \<open>PullUintValue\<close> leaves its target unchanged when the option
  is absent and rejects a value outside the target type's range.
\<close>

fun PullValue :: "string \<Rightarrow> OptionValueMap \<Rightarrow> OptionValue option \<times> OptionValueMap" where
  "PullValue name [] = (None, [])"
| "PullValue name ((k, v) # rest) =
     (if k = name then (Some v, rest)
      else (case PullValue name rest of (r, rest') \<Rightarrow> (r, (k, v) # rest')))"

definition PullBoolValue :: "string \<Rightarrow> OptionValueMap \<Rightarrow> bool \<times> OptionValueMap" where
  "PullBoolValue name options =
     (case PullValue name options of (r, options') \<Rightarrow> (r \<noteq> None, options'))"

definition PullUintValue ::
  "string \<Rightarrow> OptionValueMap \<Rightarrow> uint64_t \<Rightarrow> bool \<times> uint64_t \<times> OptionValueMap" where
  "PullUintValue name options target =
     (case PullValue name options of
        (None, options') \<Rightarrow> (True, target, options')
      | (Some v, options') \<Rightarrow>
          (if uint_value v < 0 \<or> UINT64_MAX < uint_value v then (False, target, options')
           else (True, uint_value v, options')))"

subsection \<open>The environment and the world\<close>

text \<open>What \<open>stat\<close> reports for a directory entry; a regular file has its bytes.\<close>

datatype node = RegularFile string | Directory | OtherNode

text \<open>
  The archive writer's state: the entries closed so far in order, each a name and the
  bytes written into it (the logical, uncompressed contents), the entry being written,
  and whether the archive was finalized.
\<close>

record ZipWriter =
  entries :: "(string \<times> string) list"
  current :: "(string \<times> string) option"
  finished :: bool

text \<open>Calls that leave the process, in the order the handler makes them.\<close>

datatype call =
    Call_popen string
  | Call_SetProperty string string
  | Call_CheckPerfEventLimit
  | Call_WriteTracepointsToFile string
  | Call_RunInAppContext string string "string list" nat string bool
  | Call_StopSignalThread int
  | Call_RunCmd "string list"

text \<open>
  The world: the system properties, the recording data directory (\<open>None\<close> when it does
  not exist, otherwise its entries in listing order), the archive written to the output
  descriptor, and the calls made so far.
\<close>

record world =
  properties :: "string \<Rightarrow> string option"
  data_dir :: "(string \<times> node) list option"
  archive :: "ZipWriter option"
  calls :: "call list"

text \<open>
  The environment fixes what each collaborator outside \<open>cmd_api.cpp\<close> answers during one
  invocation: the option preprocessor (\<open>PreprocessOptions\<close>, which yields the parsed
  options and the ordered options, or fails), the option table of api-collect
  (\<open>cmd_api_impl.h\<close>), the host's Android version, the clock, the output of
  \<^verbatim>\<open>pm list packages -U\<close> (\<open>None\<close> when the pipe cannot be opened or read), and the
  success of property writes, of the perf-event-limit check, of writing the tracepoint
  file, of the run-in-app-context helper, of shell commands, of opening descriptors and
  files, of reads (by path and offset), and the result codes of the zip writer. For the
  stop-signal watcher it says of which descriptors the watcher's read returns while the
  handler runs (\<open>stop_read_returns\<close>), and in what state the world is when the
  watcher then ends the process (\<open>world_when_killed\<close>): the code does not fix the point
  at which the exit lands, so the model takes that state as given and says nothing of it.
\<close>

record env =
  PreprocessOptions ::
    "string list \<Rightarrow> OptionFormatMap \<Rightarrow> (OptionValueMap \<times> (string \<times> OptionValue) list) option"
  GetApiCollectCmdOptionFormats :: OptionFormatMap
  GetAndroidVersion :: int
  time_now :: time_t
  pm_list_packages :: "string option"
  SetProperty_ok :: "string \<Rightarrow> string \<Rightarrow> bool"
  CheckPerfEventLimit_ok :: bool
  WriteTracepointsToFile_ok :: "string \<Rightarrow> bool"
  RunInAppContext_ok :: "string \<Rightarrow> string \<Rightarrow> string list \<Rightarrow> nat \<Rightarrow> string \<Rightarrow> bool \<Rightarrow> bool"
  RunCmd_ok :: "string list \<Rightarrow> bool"
  Fdopen_ok :: "int \<Rightarrow> bool"
  OpenReadOnly_ok :: "string \<Rightarrow> bool"
  read_fails :: "string \<Rightarrow> nat \<Rightarrow> bool"
  StartEntry_rc :: "string \<Rightarrow> int"
  WriteBytes_rc :: "string \<Rightarrow> nat \<Rightarrow> int"
  FinishEntry_rc :: "string \<Rightarrow> int"
  Finish_rc :: int
  stop_read_returns :: "int \<Rightarrow> bool"
  world_when_killed :: "world \<Rightarrow> world"

definition log_call :: "call \<Rightarrow> world \<Rightarrow> world" where
  "log_call c w = w\<lparr>calls := calls w @ [c]\<rparr>"

text \<open>
  Modelled from the spec: the collaborators \<open>SetProperty(key, value) -> bool\<close>,
  \<open>CheckPerfEventLimit() -> bool\<close>, \<open>WriteTracepointsToFile(path) -> bool\<close>,
  \<open>RunInAppContext(appName, commandName, args, extraFd, outputPath, bool) -> bool\<close> and
  \<open>RunCmd(argv[]) -> bool\<close>. Each records its call; a successful property write
  stores the value, and a successful \<^verbatim>\<open>rm -rf simpleperf_data\<close> leaves no data
  directory. A failed call changes nothing else.
\<close>

definition SetProperty :: "env \<Rightarrow> string \<Rightarrow> string \<Rightarrow> world \<Rightarrow> bool \<times> world" where
  "SetProperty env key val w =
     (let w1 = log_call (Call_SetProperty key val) w in
      if SetProperty_ok env key val
      then (True, w1\<lparr>properties := (properties w1)(key \<mapsto> val)\<rparr>)
      else (False, w1))"

definition CheckPerfEventLimit :: "env \<Rightarrow> world \<Rightarrow> bool \<times> world" where
  "CheckPerfEventLimit env w = (CheckPerfEventLimit_ok env, log_call Call_CheckPerfEventLimit w)"

definition WriteTracepointsToFile :: "env \<Rightarrow> string \<Rightarrow> world \<Rightarrow> bool \<times> world" where
  "WriteTracepointsToFile env path w =
     (WriteTracepointsToFile_ok env path, log_call (Call_WriteTracepointsToFile path) w)"

definition RunInAppContext ::
  "env \<Rightarrow> string \<Rightarrow> string \<Rightarrow> string list \<Rightarrow> nat \<Rightarrow> string \<Rightarrow> bool \<Rightarrow> world \<Rightarrow> bool \<times> world" where
  "RunInAppContext env app cmd_name args fd out_path b w =
     (RunInAppContext_ok env app cmd_name args fd out_path b,
      log_call (Call_RunInAppContext app cmd_name args fd out_path b) w)"

definition SIMPLEPERF_DATA_DIR :: string where
  "SIMPLEPERF_DATA_DIR = ''simpleperf_data''"

definition RunCmd :: "env \<Rightarrow> string list \<Rightarrow> world \<Rightarrow> bool \<times> world" where
  "RunCmd env args w =
     (let w1 = log_call (Call_RunCmd args) w in
      if RunCmd_ok env args
      then (True, if args = [''rm'', ''-rf'', SIMPLEPERF_DATA_DIR] then w1\<lparr>data_dir := None\<rparr> else w1)
      else (False, w1))"

subsection \<open>Resolving the uid (\<open>PrepareCommand::GetAppUid\<close>, lines 122-145)\<close>

text \<open>
  The character classes of the regular expression
  \<^verbatim>\<open>package:([\w\.]+)\s+uid:(\d+)\<close> in the C locale: \<^verbatim>\<open>\d\<close> is a decimal digit,
  \<^verbatim>\<open>\w\<close> a letter, a digit or the underscore, \<^verbatim>\<open>\s\<close> a space or one of the
  characters 9 to 13 (tab, newline, vertical tab, form feed, carriage return).
\<close>

definition is_digit :: "char \<Rightarrow> bool" where
  "is_digit c = (let n = (of_char c :: nat) in 48 \<le> n \<and> n \<le> 57)"

definition is_word :: "char \<Rightarrow> bool" where
  "is_word c = (let n = (of_char c :: nat) in
     (48 \<le> n \<and> n \<le> 57) \<or> (65 \<le> n \<and> n \<le> 90) \<or> (97 \<le> n \<and> n \<le> 122) \<or> n = 95)"

definition is_space :: "char \<Rightarrow> bool" where
  "is_space c = (let n = (of_char c :: nat) in n = 32 \<or> (9 \<le> n \<and> n \<le> 13))"

text \<open>The bracket expression \<^verbatim>\<open>[\w\.]\<close> of the first group.\<close>

definition is_name_char :: "char \<Rightarrow> bool" where
  "is_name_char c = (is_word c \<or> c = CHR ''.'')"

text \<open>Matching a literal at the head of the input; the result is the input after it.\<close>

fun match_literal :: "string \<Rightarrow> string \<Rightarrow> string option" where
  "match_literal [] s = Some s"
| "match_literal (p # ps) [] = None"
| "match_literal (p # ps) (c # cs) = (if p = c then match_literal ps cs else None)"

text \<open>
  One match attempt of the expression at the head of the input: the two groups and the
  input after the match. Each \<^verbatim>\<open>+\<close> is greedy, and here greedy is the only way to
  match: the character that ends a run of \<^verbatim>\<open>[\w\.]\<close> must be white space, the one
  that ends the white space must be the \<open>u\<close> of \<open>uid:\<close>, and neither belongs to the class
  of the run before it, so a shorter run can never be continued; the run of digits
  ends the expression.
\<close>

definition regex_match_here :: "string \<Rightarrow> (string \<times> string \<times> string) option" where
  "regex_match_here s =
     (case match_literal ''package:'' s of
        None \<Rightarrow> None
      | Some s1 \<Rightarrow>
          (let name = takeWhile is_name_char s1; s2 = dropWhile is_name_char s1 in
           if name = [] then None
           else
             (let ws = takeWhile is_space s2; s3 = dropWhile is_space s2 in
              if ws = [] then None
              else
                (case match_literal ''uid:'' s3 of
                   None \<Rightarrow> None
                 | Some s4 \<Rightarrow>
                     (let digits = takeWhile is_digit s4; s5 = dropWhile is_digit s4 in
                      if digits = [] then None else Some (name, digits, s5))))))"

text \<open>
  \<open>std::regex_search\<close>, as \<open>std::sregex_iterator\<close> calls it: the match at the leftmost
  position of the input that has one.
\<close>

fun regex_search :: "string \<Rightarrow> (string \<times> string \<times> string) option" where
  "regex_search [] = None"
| "regex_search (c # cs) =
     (case regex_match_here (c # cs) of
        Some m \<Rightarrow> Some m
      | None \<Rightarrow> regex_search cs)"

text \<open>
  \<open>android::base::ParseUint\<close> into a \<open>uint32_t\<close>, on the strings the second group can
  hold (non-empty runs of decimal digits): \<open>strtoull\<close> in base 10 fails with
  \<open>ERANGE\<close> beyond 64 bits, and a value above the maximum of the target type is
  rejected. Any other string is rejected by the model.
\<close>

definition digit_value :: "char \<Rightarrow> int" where
  "digit_value c = of_char c - 48"

definition decimal_value :: "string \<Rightarrow> int" where
  "decimal_value s = foldl (\<lambda>acc c. acc * 10 + digit_value c) 0 s"

definition ParseUint :: "string \<Rightarrow> uint32_t option" where
  "ParseUint s =
     (if s = [] \<or> \<not> list_all is_digit s then None
      else if 2 ^ 64 \<le> decimal_value s then None
      else if 2 ^ 32 - 1 < decimal_value s then None
      else Some (word_of_int (decimal_value s)))"

lemma match_literal_length: "match_literal p s = Some r \<Longrightarrow> length r + length p = length s"
  by (induction p s rule: match_literal.induct) (auto split: if_splits)

lemma regex_match_here_shorter:
  assumes h: "regex_match_here s = Some (n, u, r)"
  shows "length r < length s"
proof -
  from h obtain s1 where s1: "match_literal ''package:'' s = Some s1"
    by (auto simp: regex_match_here_def split: option.splits)
  from h s1 obtain s4
    where s4: "match_literal ''uid:'' (dropWhile is_space (dropWhile is_name_char s1)) = Some s4"
    by (auto simp: regex_match_here_def Let_def split: option.splits if_splits)
  from h s1 s4 have r: "r = dropWhile is_digit s4"
    by (auto simp: regex_match_here_def Let_def split: option.splits if_splits)
  have "length r \<le> length s4" using r by (simp add: length_dropWhile_le)
  moreover have "length s4 < length (dropWhile is_space (dropWhile is_name_char s1))"
    using match_literal_length [OF s4] by simp
  moreover have "length (dropWhile is_space (dropWhile is_name_char s1)) \<le> length s1"
    using length_dropWhile_le [of is_space "dropWhile is_name_char s1"]
      length_dropWhile_le [of is_name_char s1] by linarith
  moreover have "length s1 < length s" using match_literal_length [OF s1] by simp
  ultimately show ?thesis by linarith
qed

lemma regex_search_shorter:
  "regex_search s = Some (n, u, r) \<Longrightarrow> length r < length s"
  by (induction s) (auto split: option.splits dest: regex_match_here_shorter)

text \<open>
  The loop of lines 132-142: the iterator's next match is searched in the input after
  the previous one; a match whose uid does not parse is skipped; the first match whose
  name equals the application name returns its uid; running out of matches is
  \<open>std::nullopt\<close>.
\<close>

function GetAppUid_loop :: "string \<Rightarrow> string \<Rightarrow> uint32_t option" where
  "GetAppUid_loop app_name content =
     (case regex_search content of
        None \<Rightarrow> None
      | Some (name, uid_str, rest) \<Rightarrow>
          (case ParseUint uid_str of
             None \<Rightarrow> GetAppUid_loop app_name rest
           | Some uid \<Rightarrow> if name = app_name then Some uid else GetAppUid_loop app_name rest))"
  by pat_completeness auto
termination
  by (relation "measure (\<lambda>(a, c). length c)") (auto dest: regex_search_shorter)

declare GetAppUid_loop.simps [simp del]

text \<open>The sequence of matches the iterator enumerates: the two groups of each.\<close>

function regex_matches :: "string \<Rightarrow> (string \<times> string) list" where
  "regex_matches content =
     (case regex_search content of
        None \<Rightarrow> []
      | Some (name, uid_str, rest) \<Rightarrow> (name, uid_str) # regex_matches rest)"
  by pat_completeness auto
termination
  by (relation "measure length") (auto dest: regex_search_shorter)

declare regex_matches.simps [simp del]

definition GetAppUid :: "env \<Rightarrow> string \<Rightarrow> world \<Rightarrow> uint32_t option \<times> world" where
  "GetAppUid env app_name w =
     (let w1 = log_call (Call_popen ''pm list packages -U'') w in
      case pm_list_packages env of
        None \<Rightarrow> (None, w1)
      | Some content \<Rightarrow> (GetAppUid_loop app_name content, w1))"

subsection \<open>\<open>PrepareCommand\<close> (lines 45-120)\<close>

record PrepareCommand =
  prepare_app_name :: string
  prepare_days :: uint64_t

definition PrepareCommand_init :: PrepareCommand where
  "PrepareCommand_init = \<lparr>prepare_app_name = [], prepare_days = 0\<rparr>"

definition prepare_option_formats :: OptionFormatMap where
  "prepare_option_formats =
     [(''--app'', (STRING, SINGLE, NOT_ALLOWED)),
      (''--days'', (UINT, SINGLE, NOT_ALLOWED))]"

definition PrepareCommand_ParseOptions ::
  "env \<Rightarrow> string list \<Rightarrow> PrepareCommand \<Rightarrow> bool \<times> PrepareCommand" where
  "PrepareCommand_ParseOptions env args cmd =
     (case PreprocessOptions env args prepare_option_formats of
        None \<Rightarrow> (False, cmd)
      | Some (options, ordered_options) \<Rightarrow>
          (case PullValue ''--app'' options of
             (v, options1) \<Rightarrow>
               (let cmd1 = (case v of
                              Some ov \<Rightarrow> cmd\<lparr>prepare_app_name := str_value ov\<rparr>
                            | None \<Rightarrow> cmd)
                in case PullUintValue ''--days'' options1 (prepare_days cmd1) of
                     (ok, d, options2) \<Rightarrow>
                       if \<not> ok then (False, cmd1) else (True, cmd1\<lparr>prepare_days := d\<rparr>))))"

text \<open>\<open>std::to_string\<close> of an unsigned integer: its decimal digits.\<close>

definition digit_char :: "nat \<Rightarrow> char" where
  "digit_char d = ''0123456789'' ! d"

function to_string :: "nat \<Rightarrow> string" where
  "to_string n =
     (if n < 10 then [digit_char n]
      else to_string (n div 10) @ [digit_char (n mod 10)])"
  by pat_completeness auto
termination
  by (relation "measure id") auto

declare to_string.simps [simp del]

text \<open>
  The part of \<open>PrepareCommand::Run\<close> after option parsing (lines 71-99), for the parsed
  fields \<open>cmd\<close>.
\<close>

definition PrepareCommand_enable :: "env \<Rightarrow> PrepareCommand \<Rightarrow> world \<Rightarrow> bool \<times> world" where
  "PrepareCommand_enable env cmd w =
     (if 13 \<le> GetAndroidVersion env \<and> prepare_app_name cmd \<noteq> [] \<and> prepare_days cmd \<noteq> 0
      then
        (let expiration = expiration_time (prepare_days cmd) (time_now env) in
         case GetAppUid env (prepare_app_name cmd) w of
           (None, w1) \<Rightarrow> (False, w1)
         | (Some uid, w1) \<Rightarrow>
             (case SetProperty env ''persist.simpleperf.profile_app_uid''
                     (to_string (unat uid)) w1 of
                (False, w2) \<Rightarrow> (False, w2)
              | (True, w2) \<Rightarrow>
                  (case SetProperty env ''persist.simpleperf.profile_app_expiration_time''
                          (to_string (unat expiration)) w2 of
                     (False, w3) \<Rightarrow> (False, w3)
                   | (True, w3) \<Rightarrow>
                       WriteTracepointsToFile env ''/data/local/tmp/tracepoint_events'' w3)))
      else
        (case CheckPerfEventLimit env w of
           (False, w1) \<Rightarrow> (False, w1)
         | (True, w1) \<Rightarrow> WriteTracepointsToFile env ''/data/local/tmp/tracepoint_events'' w1))"

definition PrepareCommand_Run :: "env \<Rightarrow> string list \<Rightarrow> world \<Rightarrow> bool \<times> world" where
  "PrepareCommand_Run env args w =
     (case PrepareCommand_ParseOptions env args PrepareCommand_init of
        (False, cmd) \<Rightarrow> (False, w)
      | (True, cmd) \<Rightarrow> PrepareCommand_enable env cmd w)"

subsection \<open>\<open>CollectCommand\<close> (lines 147-294)\<close>

record CollectCommand =
  collect_app_name :: string
  output_filepath :: string
  in_app_context :: bool
  out_fd :: int
  stop_signal_fd :: int

text \<open>The member initializers; an unset \<open>unique_fd\<close> holds \<open>-1\<close>.\<close>

definition CollectCommand_init :: CollectCommand where
  "CollectCommand_init =
     \<lparr>collect_app_name = [], output_filepath = ''simpleperf_data.zip'',
      in_app_context = False, out_fd = - 1, stop_signal_fd = - 1\<rparr>"

text \<open>
  A failed \<open>CHECK\<close> aborts the process, and \<^verbatim>\<open>exit(status)\<close> in the watcher thread ends
  it with that status; otherwise the function returns.
\<close>

datatype 'a outcome = Aborted | Exited int | Returned 'a

text \<open>\<^verbatim>\<open>static_cast<int>\<close> of a \<open>uint64_t\<close>: the low 32 bits, read as signed.\<close>

definition static_cast_int :: "uint64_t \<Rightarrow> int" where
  "static_cast_int v = sint (ucast v :: 32 word)"

definition CollectCommand_ParseOptions ::
  "env \<Rightarrow> string list \<Rightarrow> CollectCommand \<Rightarrow> (bool \<times> CollectCommand) outcome" where
  "CollectCommand_ParseOptions env args cmd =
     (case PreprocessOptions env args (GetApiCollectCmdOptionFormats env) of
        None \<Rightarrow> Returned (False, cmd)
      | Some (options, ordered_options) \<Rightarrow>
          (case PullValue ''--app'' options of (v1, options1) \<Rightarrow>
          (case PullBoolValue ''--in-app'' options1 of (b, options2) \<Rightarrow>
          (case PullValue ''-o'' options2 of (v3, options3) \<Rightarrow>
          (case PullValue ''--out-fd'' options3 of (v4, options4) \<Rightarrow>
          (case PullValue ''--stop-signal-fd'' options4 of (v5, options5) \<Rightarrow>
            (let cmd1 = (case v1 of Some ov \<Rightarrow> cmd\<lparr>collect_app_name := str_value ov\<rparr>
                         | None \<Rightarrow> cmd);
                 cmd2 = cmd1\<lparr>in_app_context := b\<rparr>;
                 cmd3 = (case v3 of Some ov \<Rightarrow> cmd2\<lparr>output_filepath := str_value ov\<rparr>
                         | None \<Rightarrow> cmd2);
                 cmd4 = (case v4 of Some ov \<Rightarrow> cmd3\<lparr>out_fd := static_cast_int (uint_value ov)\<rparr>
                         | None \<Rightarrow> cmd3);
                 cmd5 = (case v5 of
                           Some ov \<Rightarrow> cmd4\<lparr>stop_signal_fd := static_cast_int (uint_value ov)\<rparr>
                         | None \<Rightarrow> cmd4)
             in if options5 \<noteq> [] then Aborted
                else if ordered_options \<noteq> [] then Aborted
                else if \<not> in_app_context cmd5 \<and> collect_app_name cmd5 = []
                  then Returned (False, cmd5)
                else Returned (True, cmd5))))))))"

text \<open>
  The body of the watcher thread, lines 228-230: \<^verbatim>\<open>read(fd, &c, 1)\<close> and then, whatever
  the read returned, \<^verbatim>\<open>exit(1)\<close>. The read returns at once with an error on a descriptor
  that is not open, as the unset \<open>-1\<close> is; on any other descriptor it returns when the
  environment makes it readable or closes it. The value says whether the thread ends
  the process while the handler runs.
\<close>

definition stop_signal_thread :: "env \<Rightarrow> int \<Rightarrow> bool" where
  "stop_signal_thread env fd = (fd < 0 \<or> stop_read_returns env fd)"

text \<open>
  \<open>HandleStopSignal\<close> releases the descriptor and starts the detached thread on it. The
  third component is whether that thread ends the process during this invocation.
\<close>

definition HandleStopSignal ::
  "env \<Rightarrow> CollectCommand \<Rightarrow> world \<Rightarrow> CollectCommand \<times> world \<times> bool" where
  "HandleStopSignal env cmd w =
     (let fd = stop_signal_fd cmd
      in (cmd\<lparr>stop_signal_fd := - 1\<rparr>, log_call (Call_StopSignalThread fd) w,
          stop_signal_thread env fd))"

text \<open>
  Modelled from the spec: the archive writer, "exposing: start-entry(name, compress),
  write-bytes, finish-entry, finish-stream, each returning a result code". A call
  whose result code (given by the environment) is not 0 leaves the writer as it was;
  writing or finishing with no entry open is the writer's invalid-state error.
\<close>

definition kInvalidState :: int where
  "kInvalidState = - 2"

definition ZipWriter_init :: ZipWriter where
  "ZipWriter_init = \<lparr>entries = [], current = None, finished = False\<rparr>"

definition ZipWriter_StartEntry :: "env \<Rightarrow> string \<Rightarrow> ZipWriter \<Rightarrow> int \<times> ZipWriter" where
  "ZipWriter_StartEntry env name z =
     (if StartEntry_rc env name \<noteq> 0 then (StartEntry_rc env name, z)
      else (0, z\<lparr>current := Some (name, [])\<rparr>))"

definition ZipWriter_WriteBytes :: "env \<Rightarrow> string \<Rightarrow> ZipWriter \<Rightarrow> int \<times> ZipWriter" where
  "ZipWriter_WriteBytes env bytes z =
     (case current z of
        None \<Rightarrow> (kInvalidState, z)
      | Some (name, written) \<Rightarrow>
          (if WriteBytes_rc env name (length written) \<noteq> 0
           then (WriteBytes_rc env name (length written), z)
           else (0, z\<lparr>current := Some (name, written @ bytes)\<rparr>)))"

definition ZipWriter_FinishEntry :: "env \<Rightarrow> ZipWriter \<Rightarrow> int \<times> ZipWriter" where
  "ZipWriter_FinishEntry env z =
     (case current z of
        None \<Rightarrow> (kInvalidState, z)
      | Some (name, written) \<Rightarrow>
          (if FinishEntry_rc env name \<noteq> 0 then (FinishEntry_rc env name, z)
           else (0, z\<lparr>entries := entries z @ [(name, written)], current := None\<rparr>)))"

definition ZipWriter_Finish :: "env \<Rightarrow> ZipWriter \<Rightarrow> int \<times> ZipWriter" where
  "ZipWriter_Finish env z =
     (if Finish_rc env \<noteq> 0 then (Finish_rc env, z) else (0, z\<lparr>finished := True\<rparr>))"

text \<open>
  Modelled from the spec: the file-system helpers of \<open>utils.h\<close> on the recording data
  directory. \<open>GetEntriesInDir\<close> lists the names in the directory (nothing when it does
  not exist); a path \<open>simpleperf_data/NAME\<close> denotes the entry called \<open>NAME\<close>;
  \<open>IsRegularFile\<close> is what \<open>stat\<close> says of it. The directory does not change while
  the handler runs.
\<close>

definition GetEntriesInDir :: "world \<Rightarrow> string \<Rightarrow> string list" where
  "GetEntriesInDir w dir =
     (if dir = SIMPLEPERF_DATA_DIR
      then (case data_dir w of None \<Rightarrow> [] | Some es \<Rightarrow> map fst es)
      else [])"

definition lookup_path :: "world \<Rightarrow> string \<Rightarrow> node option" where
  "lookup_path w path =
     (case match_literal (SIMPLEPERF_DATA_DIR @ ''/'') path of
        None \<Rightarrow> None
      | Some name \<Rightarrow> (case data_dir w of None \<Rightarrow> None | Some es \<Rightarrow> map_of es name))"

definition IsRegularFile :: "world \<Rightarrow> string \<Rightarrow> bool" where
  "IsRegularFile w path =
     (case lookup_path w path of Some (RegularFile bytes) \<Rightarrow> True | _ \<Rightarrow> False)"

definition file_bytes :: "world \<Rightarrow> string \<Rightarrow> string" where
  "file_bytes w path =
     (case lookup_path w path of Some (RegularFile bytes) \<Rightarrow> bytes | _ \<Rightarrow> [])"

text \<open>\<open>android::base::StartsWith\<close>.\<close>

definition StartsWith :: "string \<Rightarrow> string \<Rightarrow> bool" where
  "StartsWith s pre = (take (length pre) s = pre)"

text \<open>
  The read loop of lines 261-276 on an open file whose unread bytes are \<open>rest\<close>, at
  offset \<open>off\<close>: a read fills the 64 KiB buffer with the next bytes of the file, fails
  where the environment says so, and returns 0 at the end of the file.
\<close>

function read_loop :: "env \<Rightarrow> string \<Rightarrow> string \<Rightarrow> nat \<Rightarrow> ZipWriter \<Rightarrow> bool \<times> ZipWriter" where
  "read_loop env path rest off z =
     (if read_fails env path off then (False, z)
      else
        (let buffer = take (64 * 1024) rest in
         if buffer = [] then (True, z)
         else
           (case ZipWriter_WriteBytes env buffer z of
              (rc, z1) \<Rightarrow>
                if rc \<noteq> 0 then (False, z1)
                else read_loop env path (drop (64 * 1024) rest) (off + length buffer) z1)))"
  by pat_completeness auto
termination
  by (relation "measure (\<lambda>(env, path, rest, off, z). length rest)") auto

declare read_loop.simps [simp del]

text \<open>The loop over the directory entries, lines 244-283.\<close>

fun collect_entries :: "env \<Rightarrow> world \<Rightarrow> string list \<Rightarrow> ZipWriter \<Rightarrow> bool \<times> ZipWriter" where
  "collect_entries env w [] z = (True, z)"
| "collect_entries env w (name # names) z =
     (let path = SIMPLEPERF_DATA_DIR @ ''/'' @ name in
      if StartsWith name ''TemporaryFile-'' \<or> \<not> IsRegularFile w path
      then collect_entries env w names z
      else
        (case ZipWriter_StartEntry env name z of
           (rc, z1) \<Rightarrow>
             if rc \<noteq> 0 then (False, z1)
             else if \<not> OpenReadOnly_ok env path then (False, z1)
             else
               (case read_loop env path (file_bytes w path) 0 z1 of
                  (False, z2) \<Rightarrow> (False, z2)
                | (True, z2) \<Rightarrow>
                    (case ZipWriter_FinishEntry env z2 of
                       (rc2, z3) \<Rightarrow>
                         if rc2 \<noteq> 0 then (False, z3)
                         else collect_entries env w names z3))))"

definition CollectRecordingData :: "env \<Rightarrow> CollectCommand \<Rightarrow> world \<Rightarrow> bool \<times> world" where
  "CollectRecordingData env cmd w =
     (if \<not> Fdopen_ok env (out_fd cmd) then (False, w)
      else
        (case collect_entries env w (GetEntriesInDir w SIMPLEPERF_DATA_DIR) ZipWriter_init of
           (False, z1) \<Rightarrow> (False, w\<lparr>archive := Some z1\<rparr>)
         | (True, z1) \<Rightarrow>
             (case ZipWriter_Finish env z1 of
                (rc, z2) \<Rightarrow> (rc = 0, w\<lparr>archive := Some z2\<rparr>))))"

definition RemoveRecordingData :: "env \<Rightarrow> world \<Rightarrow> bool \<times> world" where
  "RemoveRecordingData env w = RunCmd env [''rm'', ''-rf'', SIMPLEPERF_DATA_DIR] w"

text \<open>
  \<open>CollectCommand::Run\<close>, lines 180-189. In the app's context the watcher thread runs
  beside line 186: when it ends the process, the handler does not return.
\<close>

definition CollectCommand_Run :: "env \<Rightarrow> string list \<Rightarrow> world \<Rightarrow> bool outcome \<times> world" where
  "CollectCommand_Run env args w =
     (case CollectCommand_ParseOptions env args CollectCommand_init of
        Aborted \<Rightarrow> (Aborted, w)
      | Returned (False, cmd) \<Rightarrow> (Returned False, w)
      | Returned (True, cmd) \<Rightarrow>
          if in_app_context cmd
          then
            (case HandleStopSignal env cmd w of
               (cmd1, w1, killed) \<Rightarrow>
                 if killed then (Exited 1, world_when_killed env w1)
                 else
                   (case CollectRecordingData env cmd1 w1 of
                      (False, w2) \<Rightarrow> (Returned False, w2)
                    | (True, w2) \<Rightarrow>
                        (case RemoveRecordingData env w2 of (r, w3) \<Rightarrow> (Returned r, w3))))
          else
            (case RunInAppContext env (collect_app_name cmd) ''api-collect'' args 0
                    (output_filepath cmd) False w of
               (r, w1) \<Rightarrow> (Returned r, w1)))"

text \<open>The names an archive writer holds: of its closed entries and of its open one.\<close>

definition archive_names :: "ZipWriter \<Rightarrow> string set" where
  "archive_names z = fst ` set (entries z) \<union> (case current z of None \<Rightarrow> {} | Some e \<Rightarrow> {fst e})"

text \<open>The test of line 247: the entries the loop does not skip.\<close>

definition collected :: "world \<Rightarrow> string \<Rightarrow> bool" where
  "collected w name \<longleftrightarrow>
     \<not> (StartsWith name ''TemporaryFile-''
        \<or> \<not> IsRegularFile w (SIMPLEPERF_DATA_DIR @ ''/'' @ name))"

text \<open>
  Whether the text \<open>package:NAME\<close> followed by a white-space character occurs in a
  listing: the test below decides it for a concrete listing.
\<close>

fun entry_text_occurs :: "string \<Rightarrow> string \<Rightarrow> bool" where
  "entry_text_occurs name [] = False"
| "entry_text_occurs name (x # xs) =
     ((case match_literal (''package:'' @ name) (x # xs) of
         Some (c # b) \<Rightarrow> is_space c
       | _ \<Rightarrow> False)
      \<or> entry_text_occurs name xs)"

text \<open>The line separator of the package listing.\<close>

definition newline :: char where
  "newline = CHR 0x0A"

subsection \<open>A concrete device\<close>

text \<open>
  An environment and a world to run the handlers on: Android 13, every collaborator
  succeeds, the package manager lists two packages, and the data directory holds a
  recording of three bytes and a temporary file; no stop signal arrives on an open
  descriptor. The preprocessor answers the four command lines used below and rejects
  every other.
\<close>

definition example_PreprocessOptions ::
  "string list \<Rightarrow> OptionFormatMap \<Rightarrow> (OptionValueMap \<times> (string \<times> OptionValue) list) option" where
  "example_PreprocessOptions args formats =
     (if args = [''--app'', ''com.example.app'', ''--days'', ''30'']
      then Some ([(''--app'', \<lparr>str_value = ''com.example.app'', uint_value = 0\<rparr>),
                  (''--days'', \<lparr>str_value = ''30'', uint_value = 30\<rparr>)], [])
      else if args = [''--in-app'', ''--out-fd'', ''5'', ''--stop-signal-fd'', ''6'']
      then Some ([(''--in-app'', \<lparr>str_value = [], uint_value = 0\<rparr>),
                  (''--out-fd'', \<lparr>str_value = ''5'', uint_value = 5\<rparr>),
                  (''--stop-signal-fd'', \<lparr>str_value = ''6'', uint_value = 6\<rparr>)], [])
      else if args = [''--in-app'', ''--out-fd'', ''5'']
      then Some ([(''--in-app'', \<lparr>str_value = [], uint_value = 0\<rparr>),
                  (''--out-fd'', \<lparr>str_value = ''5'', uint_value = 5\<rparr>)], [])
      else if args = [''-o'', ''out.zip'']
      then Some ([(''-o'', \<lparr>str_value = ''out.zip'', uint_value = 0\<rparr>)], [])
      else None)"

definition example_env :: env where
  "example_env =
     \<lparr>PreprocessOptions = example_PreprocessOptions,
      GetApiCollectCmdOptionFormats =
        [(''--app'', (STRING, SINGLE, NOT_ALLOWED)),
         (''--in-app'', (NONE, SINGLE, ALLOWED)),
         (''-o'', (STRING, SINGLE, NOT_ALLOWED)),
         (''--out-fd'', (UINT, SINGLE, ALLOWED)),
         (''--stop-signal-fd'', (UINT, SINGLE, ALLOWED))],
      GetAndroidVersion = 13,
      time_now = 1700000000,
      pm_list_packages =
        Some ''package:com.android.shell uid:2000\<newline>package:com.example.app uid:10123\<newline>'',
      SetProperty_ok = (\<lambda>key val. True),
      CheckPerfEventLimit_ok = True,
      WriteTracepointsToFile_ok = (\<lambda>path. True),
      RunInAppContext_ok = (\<lambda>app cmd_name args fd out_path b. True),
      RunCmd_ok = (\<lambda>args. True),
      Fdopen_ok = (\<lambda>fd. 0 \<le> fd),
      OpenReadOnly_ok = (\<lambda>path. True),
      read_fails = (\<lambda>path off. False),
      StartEntry_rc = (\<lambda>name. 0),
      WriteBytes_rc = (\<lambda>name off. 0),
      FinishEntry_rc = (\<lambda>name. 0),
      Finish_rc = 0,
      stop_read_returns = (\<lambda>fd. False),
      world_when_killed = (\<lambda>w. w)\<rparr>"

definition example_world :: world where
  "example_world =
     \<lparr>properties = (\<lambda>key. None),
      data_dir = Some [(''perf.data'', RegularFile ''abc''),
                       (''TemporaryFile-42'', RegularFile ''x'')],
      archive = None,
      calls = []\<rparr>"

section \<open>Properties\<close>

subsection \<open>Expiration arithmetic\<close>

lemma uint_word_of_int_64_iff:
  "uint (word_of_int r :: uint64_t) = r \<longleftrightarrow> 0 \<le> r \<and> r < 2 ^ 64"
proof
  assume h: "uint (word_of_int r :: uint64_t) = r"
  have "0 \<le> uint (word_of_int r :: uint64_t)" by simp
  moreover have "uint (word_of_int r :: uint64_t) < 2 ^ 64"
    using uint_bounded [of "word_of_int r :: uint64_t"] by simp
  ultimately show "0 \<le> r \<and> r < 2 ^ 64" using h by simp
next
  assume "0 \<le> r \<and> r < 2 ^ 64"
  then show "uint (word_of_int r :: uint64_t) = r"
    by (simp add: uint_word_of_int take_bit_eq_mod)
qed

lemma builtin_mul_overflow_eq:
  "builtin_mul_overflow a b = (\<not> (0 \<le> a * b \<and> a * b < 2 ^ 64), word_of_int (a * b))"
  by (simp add: builtin_mul_overflow_def Let_def uint_word_of_int_64_iff)

lemma builtin_add_overflow_eq:
  "builtin_add_overflow a b = (\<not> (0 \<le> a + b \<and> a + b < 2 ^ 64), word_of_int (a + b))"
  by (simp add: builtin_add_overflow_def Let_def uint_word_of_int_64_iff)

lemma expiration_time_exact:
  assumes "uint d * 86400 < 2 ^ 64"
    and "0 \<le> sint t + uint d * 86400"
    and "sint t + uint d * 86400 < 2 ^ 64"
  shows "uint (expiration_time d t) = sint t + uint d * 86400"
proof -
  have nonneg: "0 \<le> uint d * 86400" by simp
  have dur: "uint (word_of_int (uint d * 86400) :: uint64_t) = uint d * 86400"
    using assms(1) nonneg by (simp only: uint_word_of_int_64_iff)
  have "expiration_time d t = word_of_int (sint t + uint d * 86400)"
    using assms nonneg dur
    by (simp add: expiration_time_def builtin_mul_overflow_eq builtin_add_overflow_eq)
  then show ?thesis
    using assms(2,3) by (simp only: uint_word_of_int_64_iff)
qed

lemma expiration_time_saturated:
  assumes "\<not> (uint d * 86400 < 2 ^ 64 \<and> 0 \<le> sint t + uint d * 86400
              \<and> sint t + uint d * 86400 < 2 ^ 64)"
  shows "expiration_time d t = UINT64_MAX"
proof (cases "uint d * 86400 < 2 ^ 64")
  case False
  then show ?thesis
    by (simp add: expiration_time_def builtin_mul_overflow_eq)
next
  case True
  have nonneg: "0 \<le> uint d * 86400" by simp
  have dur: "uint (word_of_int (uint d * 86400) :: uint64_t) = uint d * 86400"
    using True nonneg by (simp only: uint_word_of_int_64_iff)
  from True assms have "\<not> (0 \<le> sint t + uint d * 86400 \<and> sint t + uint d * 86400 < 2 ^ 64)"
    by simp
  then show ?thesis
    using True nonneg dur
    by (auto simp add: expiration_time_def builtin_mul_overflow_eq builtin_add_overflow_eq)
qed

text \<open>
  Claim C2. For every day count \<open>d\<close> and current time \<open>t\<close>: when \<open>d * 86400\<close> fits an
  unsigned 64-bit integer and \<open>t + d * 86400\<close> does too, the computed expiration is
  exactly \<open>t + d * 86400\<close>; in every other case (the multiplication or the addition
  overflows) it is the sentinel \<open>UINT64_MAX\<close>, whose value is \<open>2 ^ 64 - 1\<close>, and never
  a wrapped-around value.
\<close>

theorem expiration_time_saturates:
  "(uint d * 86400 < 2 ^ 64 \<and> 0 \<le> sint t + uint d * 86400 \<and> sint t + uint d * 86400 < 2 ^ 64
      \<longrightarrow> uint (expiration_time d t) = sint t + uint d * 86400)
   \<and> (\<not> (uint d * 86400 < 2 ^ 64 \<and> 0 \<le> sint t + uint d * 86400
           \<and> sint t + uint d * 86400 < 2 ^ 64)
      \<longrightarrow> expiration_time d t = UINT64_MAX \<and> uint (expiration_time d t) = 2 ^ 64 - 1)"
proof (intro conjI impI)
  assume "uint d * 86400 < 2 ^ 64 \<and> 0 \<le> sint t + uint d * 86400
            \<and> sint t + uint d * 86400 < 2 ^ 64"
  then show "uint (expiration_time d t) = sint t + uint d * 86400"
    by (simp add: expiration_time_exact)
next
  assume h: "\<not> (uint d * 86400 < 2 ^ 64 \<and> 0 \<le> sint t + uint d * 86400
            \<and> sint t + uint d * 86400 < 2 ^ 64)"
  then show "expiration_time d t = UINT64_MAX"
    by (rule expiration_time_saturated)
  then show "uint (expiration_time d t) = 2 ^ 64 - 1"
    by (simp add: UINT64_MAX_def unsigned_minus_1_eq_mask mask_eq_exp_minus_1)
qed

theorem expiration_time_saturates_witness:
  "uint (expiration_time 30 1700000000) = 1702592000
   \<and> expiration_time 213503982334602 1700000000 = UINT64_MAX
   \<and> expiration_time 213503982334601 1700000000 = UINT64_MAX
   \<and> uint (expiration_time 1 (- 1)) = 86399"
  using expiration_time_saturates [of 30 1700000000]
    expiration_time_saturates [of 213503982334602 1700000000]
    expiration_time_saturates [of 213503982334601 1700000000]
    expiration_time_saturates [of 1 "- 1"]
  by simp

subsection \<open>Uid resolution\<close>

lemma match_literal_Some_iff: "match_literal p s = Some r \<longleftrightarrow> s = p @ r"
  by (induction p s rule: match_literal.induct) auto

lemma newline_class [simp]:
  "\<not> is_name_char newline" "\<not> is_digit newline" "is_space newline"
  by (simp_all add: newline_def is_name_char_def is_word_def is_digit_def is_space_def)

lemma char_class [simp]:
  "\<not> is_space CHR ''p''" "\<not> is_name_char CHR '' ''" "is_space CHR '' ''"
  "\<not> is_space CHR ''u''"
  by (simp_all add: is_name_char_def is_word_def is_digit_def is_space_def)

lemma match_literal_boundary:
  assumes "p \<noteq> []" and "last p \<notin> set lit"
  shows "match_literal lit (p @ L) = map_option (\<lambda>r. r @ L) (match_literal lit p)
         \<and> (\<forall>r. match_literal lit p = Some r \<longrightarrow> r \<noteq> [] \<and> last r = last p)"
  using assms
proof (induction lit p rule: match_literal.induct)
  case (1 s)
  then show ?case by simp
next
  case (2 p ps)
  then show ?case by simp
next
  case (3 p ps c cs)
  show ?case
  proof (cases "p = c")
    case False
    then show ?thesis by simp
  next
    case True
    with 3(3) have "cs \<noteq> []" by auto
    moreover from this 3(3) have "last cs \<notin> set ps" by simp
    ultimately show ?thesis using 3(1) [OF True] True by simp
  qed
qed

lemma match_package_boundary:
  assumes "p \<noteq> []" and "last p = newline"
  shows "match_literal ''package:'' (p @ L) = map_option (\<lambda>r. r @ L) (match_literal ''package:'' p)
         \<and> (\<forall>r. match_literal ''package:'' p = Some r \<longrightarrow> r \<noteq> [] \<and> last r = newline)"
  using match_literal_boundary [of p "''package:''" L] assms by (simp add: newline_def)

lemma match_uid_boundary:
  assumes "p \<noteq> []" and "last p = newline"
  shows "match_literal ''uid:'' (p @ L) = map_option (\<lambda>r. r @ L) (match_literal ''uid:'' p)
         \<and> (\<forall>r. match_literal ''uid:'' p = Some r \<longrightarrow> r \<noteq> [] \<and> last r = newline)"
  using match_literal_boundary [of p "''uid:''" L] assms by (simp add: newline_def)

lemma run_boundary:
  assumes "p \<noteq> []" and "\<not> P (last p)"
  shows "takeWhile P (p @ L) = takeWhile P p" and "dropWhile P (p @ L) = dropWhile P p @ L"
    and "dropWhile P p \<noteq> []" and "last (dropWhile P p) = last p"
proof -
  have mem: "last p \<in> set p" using assms(1) by simp
  show "takeWhile P (p @ L) = takeWhile P p"
    using mem assms(2) by (rule takeWhile_append1)
  show "dropWhile P (p @ L) = dropWhile P p @ L"
    using mem assms(2) by (rule dropWhile_append1)
  show ne: "dropWhile P p \<noteq> []"
    using mem assms(2) by auto
  have "last (takeWhile P p @ dropWhile P p) = last (dropWhile P p)"
    using ne by (rule last_appendR)
  then show "last (dropWhile P p) = last p" by simp
qed

text \<open>
  A match attempt that starts before a line break followed by \<open>p\<close> never reaches past
  the break: it gives what it gives on the text up to the break alone.
\<close>

lemma regex_match_here_boundary:
  assumes p: "p \<noteq> []" "last p = newline"
  shows "regex_match_here (p @ CHR ''p'' # L) =
           map_option (\<lambda>(n, u, r). (n, u, r @ CHR ''p'' # L)) (regex_match_here p)
         \<and> (\<forall>n u r. regex_match_here p = Some (n, u, r) \<longrightarrow> r \<noteq> [] \<and> last r = newline)"
proof (cases "match_literal ''package:'' p")
  case None
  moreover have "match_literal ''package:'' (p @ CHR ''p'' # L) = None"
    using match_package_boundary [of p "CHR ''p'' # L"] p None
    by (simp del: match_literal.simps)
  ultimately show ?thesis
    by (simp add: regex_match_here_def del: match_literal.simps)
next
  case (Some s1)
  let ?L = "CHR ''p'' # L"
  have b1: "match_literal ''package:'' (p @ ?L) = Some (s1 @ ?L)" "s1 \<noteq> []" "last s1 = newline"
    using match_package_boundary [of p ?L] p Some
    by (simp_all del: match_literal.simps)
  define s2 where "s2 = dropWhile is_name_char s1"
  have b2: "takeWhile is_name_char (s1 @ ?L) = takeWhile is_name_char s1"
      "dropWhile is_name_char (s1 @ ?L) = s2 @ ?L" "s2 \<noteq> []" "last s2 = newline"
    using run_boundary [where p = s1 and P = is_name_char] b1(2,3) by (simp_all add: s2_def)
  show ?thesis
  proof (cases "\<forall>x\<in>set s2. is_space x")
    case True
    then have t: "takeWhile is_space (s2 @ ?L) = s2" "dropWhile is_space (s2 @ ?L) = ?L"
      "takeWhile is_space s2 = s2" "dropWhile is_space s2 = []"
      by simp_all
    show ?thesis
      using Some b1 b2 by (simp add: regex_match_here_def Let_def s2_def [symmetric] t)
  next
    case False
    then obtain x where x: "x \<in> set s2" "\<not> is_space x" by blast
    define s3 where "s3 = dropWhile is_space s2"
    have b3: "takeWhile is_space (s2 @ ?L) = takeWhile is_space s2"
      "dropWhile is_space (s2 @ ?L) = s3 @ ?L"
      using x by (simp_all add: s3_def)
    have s3: "s3 \<noteq> []" "last s3 = newline"
    proof -
      show ne: "s3 \<noteq> []" using x by (auto simp: s3_def)
      have "last (takeWhile is_space s2 @ s3) = last s3"
        using ne by (rule last_appendR)
      then show "last s3 = newline" using b2(4) by (simp add: s3_def)
    qed
    show ?thesis
    proof (cases "match_literal ''uid:'' s3")
      case None
      moreover have "match_literal ''uid:'' (s3 @ ?L) = None"
        using match_uid_boundary [of s3 ?L] s3 None
        by (simp del: match_literal.simps)
      ultimately show ?thesis
        using Some b1 b2 b3
        by (simp add: regex_match_here_def Let_def s2_def [symmetric] s3_def [symmetric]
            del: match_literal.simps)
    next
      case (Some s4)
      have b4: "match_literal ''uid:'' (s3 @ ?L) = Some (s4 @ ?L)" "s4 \<noteq> []" "last s4 = newline"
        using match_uid_boundary [of s3 ?L] s3 Some
        by (simp_all del: match_literal.simps)
      have b5: "takeWhile is_digit (s4 @ ?L) = takeWhile is_digit s4"
        "dropWhile is_digit (s4 @ ?L) = dropWhile is_digit s4 @ ?L"
        "dropWhile is_digit s4 \<noteq> []" "last (dropWhile is_digit s4) = newline"
        using run_boundary [where p = s4 and P = is_digit] b4(2,3) by simp_all
      show ?thesis
        using \<open>match_literal ''package:'' p = Some s1\<close> Some b1 b2 b3 b4 b5
        by (simp add: regex_match_here_def Let_def s2_def [symmetric] s3_def [symmetric]
            del: match_literal.simps)
    qed
  qed
qed

lemma regex_search_boundary:
  assumes "p = [] \<or> last p = newline"
  shows "regex_search (p @ CHR ''p'' # L) =
           (case regex_search p of
              None \<Rightarrow> regex_search (CHR ''p'' # L)
            | Some (n, u, r) \<Rightarrow> Some (n, u, r @ CHR ''p'' # L))
         \<and> (\<forall>n u r. regex_search p = Some (n, u, r) \<longrightarrow> r \<noteq> [] \<and> last r = newline)"
  using assms
proof (induction p)
  case Nil
  then show ?case by simp
next
  case (Cons c cs)
  from Cons.prems have nl: "last (c # cs) = newline" by simp
  have tail: "cs = [] \<or> last cs = newline" using nl by (simp split: if_splits)
  have ne: "c # cs \<noteq> []" by simp
  note here = regex_match_here_boundary [OF ne nl, of L]
  show ?case
  proof (cases "regex_match_here (c # cs)")
    case None
    then show ?thesis using here Cons.IH [OF tail] by (simp del: last.simps)
  next
    case (Some m)
    then show ?thesis using here by (cases m) (simp del: last.simps)
  qed
qed

lemma GetAppUid_loop_cong:
  "regex_search s = regex_search s' \<Longrightarrow> GetAppUid_loop app s = GetAppUid_loop app s'"
  by (simp add: GetAppUid_loop.simps [of app s] GetAppUid_loop.simps [of app s'])

text \<open>
  First match wins, across a line break: the loop on a text followed by a line that
  starts with \<open>p\<close> returns what it finds in the text, and looks at the rest only when
  it finds nothing there.
\<close>

lemma GetAppUid_loop_boundary:
  "p = [] \<or> last p = newline \<Longrightarrow>
   GetAppUid_loop app (p @ CHR ''p'' # L) =
     (case GetAppUid_loop app p of
        Some uid \<Rightarrow> Some uid
      | None \<Rightarrow> GetAppUid_loop app (CHR ''p'' # L))"
proof (induction app p rule: GetAppUid_loop.induct)
  case (1 app p)
  note b = regex_search_boundary [OF "1.prems", of L]
  show ?case
  proof (cases "regex_search p")
    case None
    then have "regex_search (p @ CHR ''p'' # L) = regex_search (CHR ''p'' # L)"
      using b by simp
    then have "GetAppUid_loop app (p @ CHR ''p'' # L) = GetAppUid_loop app (CHR ''p'' # L)"
      by (rule GetAppUid_loop_cong)
    moreover have "GetAppUid_loop app p = None"
      using None by (simp add: GetAppUid_loop.simps [of app p])
    ultimately show ?thesis by simp
  next
    case (Some m)
    obtain n u r where m: "m = (n, u, r)" by (cases m)
    have r: "r = [] \<or> last r = newline" using b Some m by simp
    have s: "regex_search (p @ CHR ''p'' # L) = Some (n, u, r @ CHR ''p'' # L)"
      using b Some m by simp
    show ?thesis
    proof (cases "ParseUint u")
      case None
      have "GetAppUid_loop app (r @ CHR ''p'' # L) =
              (case GetAppUid_loop app r of Some uid \<Rightarrow> Some uid
               | None \<Rightarrow> GetAppUid_loop app (CHR ''p'' # L))"
        using "1.IH"(1) [OF Some [unfolded m] refl refl None r] .
      then show ?thesis
        using None Some m s
        by (simp add: GetAppUid_loop.simps [of app p]
            GetAppUid_loop.simps [of app "p @ CHR ''p'' # L"])
    next
      case (Some uid)
      show ?thesis
      proof (cases "n = app")
        case True
        then show ?thesis
          using Some \<open>regex_search p = Some m\<close> m s
          by (simp add: GetAppUid_loop.simps [of app p]
              GetAppUid_loop.simps [of app "p @ CHR ''p'' # L"])
      next
        case False
        have "GetAppUid_loop app (r @ CHR ''p'' # L) =
                (case GetAppUid_loop app r of Some uid \<Rightarrow> Some uid
                 | None \<Rightarrow> GetAppUid_loop app (CHR ''p'' # L))"
          using "1.IH"(2) [OF \<open>regex_search p = Some m\<close> [unfolded m] refl refl Some False r] .
        then show ?thesis
          using False Some \<open>regex_search p = Some m\<close> m s
          by (simp add: GetAppUid_loop.simps [of app p]
              GetAppUid_loop.simps [of app "p @ CHR ''p'' # L"])
      qed
    qed
  qed
qed

lemma regex_match_here_line:
  assumes "name \<noteq> []" and "\<forall>c\<in>set name. is_name_char c"
    and "uid \<noteq> []" and "\<forall>c\<in>set uid. is_digit c"
    and "post = [] \<or> \<not> is_digit (hd post)"
  shows "regex_match_here (''package:'' @ name @ '' uid:'' @ uid @ post) = Some (name, uid, post)"
proof -
  have 1: "match_literal ''package:'' (''package:'' @ name @ '' uid:'' @ uid @ post)
             = Some (name @ '' uid:'' @ uid @ post)"
    by (simp only: match_literal_Some_iff)
  have 2: "takeWhile is_name_char (name @ '' uid:'' @ uid @ post) = name"
    "dropWhile is_name_char (name @ '' uid:'' @ uid @ post) = '' uid:'' @ uid @ post"
    using assms(2) by simp_all
  have 3: "takeWhile is_space ('' uid:'' @ uid @ post) = '' ''"
    "dropWhile is_space ('' uid:'' @ uid @ post) = ''uid:'' @ uid @ post"
    by simp_all
  have 4: "match_literal ''uid:'' (''uid:'' @ uid @ post) = Some (uid @ post)"
    by (simp only: match_literal_Some_iff)
  have post: "takeWhile is_digit post = []" "dropWhile is_digit post = post"
    using assms(5) by (cases post; simp)+
  have 5: "takeWhile is_digit (uid @ post) = uid" "dropWhile is_digit (uid @ post) = post"
    using assms(4) post by simp_all
  show ?thesis
    unfolding regex_match_here_def 1 option.case Let_def 2 3 4 5
    using assms(1,3) by simp
qed

lemma GetAppUid_loop_line:
  assumes "name \<noteq> []" and "\<forall>c\<in>set name. is_name_char c"
    and "uid \<noteq> []" and "\<forall>c\<in>set uid. is_digit c"
    and "post = [] \<or> \<not> is_digit (hd post)"
    and "ParseUint uid = Some v"
  shows "GetAppUid_loop name (''package:'' @ name @ '' uid:'' @ uid @ post) = Some v"
proof -
  have "regex_match_here (''package:'' @ name @ '' uid:'' @ uid @ post) = Some (name, uid, post)"
    using assms(1-5) by (rule regex_match_here_line)
  then have rs: "regex_search (''package:'' @ name @ '' uid:'' @ uid @ post) = Some (name, uid, post)"
    by simp
  show ?thesis
    by (subst GetAppUid_loop.simps) (simp only: rs assms(6) option.case prod.case simp_thms if_True)
qed

lemma regex_match_here_name:
  "regex_match_here s = Some (n, u, r) \<Longrightarrow> n \<noteq> [] \<and> (\<forall>c\<in>set n. is_name_char c)"
  by (auto simp: regex_match_here_def Let_def split: option.splits if_splits
      dest: set_takeWhileD)

lemma regex_search_name:
  "regex_search s = Some (n, u, r) \<Longrightarrow> n \<noteq> [] \<and> (\<forall>c\<in>set n. is_name_char c)"
proof (induction s)
  case Nil
  then show ?case by simp
next
  case (Cons c cs)
  then show ?case
    by (cases "regex_match_here (c # cs)") (auto dest: regex_match_here_name)
qed

lemma regex_matches_name:
  "(n, u) \<in> set (regex_matches s) \<Longrightarrow> n \<noteq> [] \<and> (\<forall>c\<in>set n. is_name_char c)"
proof (induction s rule: regex_matches.induct)
  case (1 content)
  show ?case
  proof (cases "regex_search content")
    case None
    then show ?thesis using "1.prems" by (simp add: regex_matches.simps [of content])
  next
    case (Some m)
    obtain n' u' r where m: "m = (n', u', r)" by (cases m)
    from "1.prems" Some m have "(n, u) = (n', u') \<or> (n, u) \<in> set (regex_matches r)"
      by (simp add: regex_matches.simps [of content])
    then show ?thesis
    proof
      assume "(n, u) = (n', u')"
      then show ?thesis using regex_search_name [of content n' u' r] Some m by simp
    next
      assume "(n, u) \<in> set (regex_matches r)"
      then show ?thesis using "1.IH" [OF Some [unfolded m] refl refl] by simp
    qed
  qed
qed

text \<open>The loop returns the uid of the first match that parses and has the name.\<close>

lemma GetAppUid_loop_find:
  "GetAppUid_loop app s =
     (case find (\<lambda>(n, u). ParseUint u \<noteq> None \<and> n = app) (regex_matches s) of
        None \<Rightarrow> None
      | Some (n, u) \<Rightarrow> ParseUint u)"
proof (induction app s rule: GetAppUid_loop.induct)
  case (1 app s)
  show ?case
  proof (cases "regex_search s")
    case None
    then show ?thesis
      by (simp add: GetAppUid_loop.simps [of app s] regex_matches.simps [of s])
  next
    case (Some m)
    obtain n u r where m: "m = (n, u, r)" by (cases m)
    show ?thesis
    proof (cases "ParseUint u")
      case None
      then show ?thesis
        using "1.IH"(1) [OF Some [unfolded m] refl refl None] Some m
        by (simp add: GetAppUid_loop.simps [of app s] regex_matches.simps [of s])
    next
      case (Some uid)
      show ?thesis
      proof (cases "n = app")
        case True
        then show ?thesis
          using Some \<open>regex_search s = Some m\<close> m
          by (simp add: GetAppUid_loop.simps [of app s] regex_matches.simps [of s])
      next
        case False
        then show ?thesis
          using "1.IH"(2) [OF \<open>regex_search s = Some m\<close> [unfolded m] refl refl Some False]
            Some \<open>regex_search s = Some m\<close> m
          by (simp add: GetAppUid_loop.simps [of app s] regex_matches.simps [of s])
      qed
    qed
  qed
qed

lemma GetAppUid_loop_absent:
  assumes "app \<notin> fst ` set (regex_matches s)"
  shows "GetAppUid_loop app s = None"
proof -
  have "find (\<lambda>(n, u). ParseUint u \<noteq> None \<and> n = app) (regex_matches s) = None"
    using assms by (force simp: find_None_iff)
  then show ?thesis by (simp add: GetAppUid_loop_find)
qed

lemma GetAppUid_loop_bad_name:
  assumes "\<exists>c\<in>set app. \<not> is_name_char c"
  shows "GetAppUid_loop app s = None"
proof (rule GetAppUid_loop_absent, rule notI)
  assume "app \<in> fst ` set (regex_matches s)"
  then obtain u where "(app, u) \<in> set (regex_matches s)" by force
  then have "\<forall>c\<in>set app. is_name_char c" by (simp add: regex_matches_name)
  with assms show False by blast
qed

lemma GetAppUid_loop_resolves_line:
  assumes "name \<noteq> []" and "\<forall>c\<in>set name. is_name_char c"
    and "uid \<noteq> []" and "\<forall>c\<in>set uid. is_digit c"
    and "ParseUint uid = Some v"
    and "pre = [] \<or> last pre = newline"
    and "post = [] \<or> hd post = newline"
  shows "GetAppUid_loop name (pre @ ''package:'' @ name @ '' uid:'' @ uid @ post) =
           (case GetAppUid_loop name pre of Some v' \<Rightarrow> Some v' | None \<Rightarrow> Some v)"
proof -
  have post: "post = [] \<or> \<not> is_digit (hd post)" using assms(7) by auto
  define L where "L = ''ackage:'' @ name @ '' uid:'' @ uid @ post"
  have e: "''package:'' @ name @ '' uid:'' @ uid @ post = CHR ''p'' # L"
    by (simp add: L_def)
  have line: "GetAppUid_loop name (CHR ''p'' # L) = Some v"
    using GetAppUid_loop_line [OF assms(1-4) post assms(5)] by (simp only: e)
  have "GetAppUid_loop name (pre @ CHR ''p'' # L) =
          (case GetAppUid_loop name pre of Some v' \<Rightarrow> Some v'
           | None \<Rightarrow> GetAppUid_loop name (CHR ''p'' # L))"
    using assms(6) by (rule GetAppUid_loop_boundary)
  then show ?thesis by (simp only: e line)
qed

lemma GetAppUid_eq:
  "GetAppUid env app w =
     (case pm_list_packages env of None \<Rightarrow> None | Some content \<Rightarrow> GetAppUid_loop app content,
      w\<lparr>calls := calls w @ [Call_popen ''pm list packages -U'']\<rparr>)"
  by (simp add: GetAppUid_def log_call_def Let_def split: option.splits)

lemma digit_value_nonneg: "is_digit c \<Longrightarrow> 0 \<le> digit_value c"
proof -
  assume d: "is_digit c"
  have "(of_char c :: int) = int (of_char c)" by (simp add: of_nat_of_char)
  then show ?thesis using d by (simp add: is_digit_def digit_value_def Let_def)
qed

lemma foldl_decimal_nonneg:
  "0 \<le> a \<Longrightarrow> \<forall>c\<in>set s. is_digit c \<Longrightarrow> 0 \<le> foldl (\<lambda>acc c. acc * 10 + digit_value c) a s"
proof (induction s arbitrary: a)
  case Nil
  then show ?case by simp
next
  case (Cons c s)
  have "0 \<le> digit_value c" using Cons.prems(2) by (simp add: digit_value_nonneg)
  then have "0 \<le> a * 10 + digit_value c" using Cons.prems(1) by simp
  then show ?case using Cons.IH [of "a * 10 + digit_value c"] Cons.prems(2) by simp
qed

lemma uint_decimal_value:
  assumes "\<forall>c\<in>set uid. is_digit c" and "decimal_value uid < 2 ^ 32"
  shows "uint (word_of_int (decimal_value uid) :: uint32_t) = decimal_value uid"
proof -
  have "0 \<le> decimal_value uid"
    using foldl_decimal_nonneg [of 0 uid] assms(1) by (simp add: decimal_value_def)
  then show ?thesis using assms(2) by (simp add: uint_word_of_int take_bit_eq_mod)
qed

lemma ParseUint_digits:
  assumes "uid \<noteq> []" and "\<forall>c\<in>set uid. is_digit c" and "decimal_value uid < 2 ^ 32"
  shows "ParseUint uid = Some (word_of_int (decimal_value uid))"
  using assms by (simp add: ParseUint_def list_all_iff)

text \<open>
  What a match says about the listing's text: the matched name stands in the text
  after \<open>package:\<close> and before white space, \<open>uid:\<close> and the matched digits.
\<close>

lemma regex_match_here_text:
  assumes h: "regex_match_here s = Some (n, u, r)"
  shows "\<exists>ws. s = ''package:'' @ n @ ws @ ''uid:'' @ u @ r \<and> ws \<noteq> [] \<and> (\<forall>c\<in>set ws. is_space c)"
proof -
  from h obtain s1 where s1: "match_literal ''package:'' s = Some s1"
    by (auto simp: regex_match_here_def split: option.splits)
  define s2 where "s2 = dropWhile is_name_char s1"
  define ws where "ws = takeWhile is_space s2"
  define s3 where "s3 = dropWhile is_space s2"
  from h s1 obtain s4 where s4: "match_literal ''uid:'' s3 = Some s4"
    by (auto simp: regex_match_here_def Let_def s2_def s3_def split: option.splits if_splits)
  from h s1 s4 have n: "n = takeWhile is_name_char s1" and u: "u = takeWhile is_digit s4"
    and r: "r = dropWhile is_digit s4" and ne: "ws \<noteq> []"
    by (auto simp: regex_match_here_def Let_def s2_def s3_def ws_def split: option.splits if_splits)
  have e1: "s = ''package:'' @ s1" using s1 by (simp only: match_literal_Some_iff)
  have e2: "s1 = n @ s2" by (simp add: n s2_def)
  have e3: "s2 = ws @ s3" by (simp add: ws_def s3_def)
  have e4: "s3 = ''uid:'' @ s4" using s4 by (simp only: match_literal_Some_iff)
  have e5: "s4 = u @ r" by (simp add: u r)
  have sp: "\<forall>c\<in>set ws. is_space c" by (auto simp: ws_def dest: set_takeWhileD)
  have "s = ''package:'' @ n @ ws @ ''uid:'' @ u @ r"
    by (simp only: e1 e2 e3 e4 e5 [symmetric])
  then show ?thesis using ne sp by blast
qed

lemma regex_search_text:
  "regex_search s = Some (n, u, r) \<Longrightarrow>
   \<exists>a ws. s = a @ ''package:'' @ n @ ws @ ''uid:'' @ u @ r \<and> ws \<noteq> [] \<and> (\<forall>c\<in>set ws. is_space c)"
proof (induction s)
  case Nil
  then show ?case by simp
next
  case (Cons x xs)
  show ?case
  proof (cases "regex_match_here (x # xs)")
    case None
    then have "regex_search xs = Some (n, u, r)" using Cons.prems by simp
    from Cons.IH [OF this] obtain a ws
      where "xs = a @ ''package:'' @ n @ ws @ ''uid:'' @ u @ r" "ws \<noteq> []" "\<forall>c\<in>set ws. is_space c"
      by blast
    then have "x # xs = (x # a) @ ''package:'' @ n @ ws @ ''uid:'' @ u @ r \<and> ws \<noteq> []
                \<and> (\<forall>c\<in>set ws. is_space c)"
      by simp
    then show ?thesis by blast
  next
    case (Some m)
    then have "regex_match_here (x # xs) = Some (n, u, r)" using Cons.prems by simp
    from regex_match_here_text [OF this] obtain ws
      where "x # xs = [] @ ''package:'' @ n @ ws @ ''uid:'' @ u @ r \<and> ws \<noteq> []
                \<and> (\<forall>c\<in>set ws. is_space c)"
      by auto
    then show ?thesis by blast
  qed
qed

lemma regex_matches_text:
  "(n, u) \<in> set (regex_matches s) \<Longrightarrow> \<exists>a c b. s = a @ ''package:'' @ n @ c # b \<and> is_space c"
proof (induction s rule: regex_matches.induct)
  case (1 content)
  show ?case
  proof (cases "regex_search content")
    case None
    then show ?thesis using "1.prems" by (simp add: regex_matches.simps [of content])
  next
    case (Some m)
    obtain n' u' r where m: "m = (n', u', r)" by (cases m)
    from regex_search_text [OF Some [unfolded m]] obtain a0 ws
      where c0: "content = a0 @ ''package:'' @ n' @ ws @ ''uid:'' @ u' @ r"
        and ws: "ws \<noteq> []" "\<forall>c\<in>set ws. is_space c"
      by blast
    from "1.prems" Some m have "(n, u) = (n', u') \<or> (n, u) \<in> set (regex_matches r)"
      by (simp add: regex_matches.simps [of content])
    then show ?thesis
    proof
      assume eq: "(n, u) = (n', u')"
      obtain c ws' where w: "ws = c # ws'" using ws(1) by (cases ws) auto
      then have "is_space c" using ws(2) by simp
      moreover have "content = a0 @ ''package:'' @ n @ c # (ws' @ ''uid:'' @ u' @ r)"
        using c0 w eq by simp
      ultimately show ?thesis by blast
    next
      assume "(n, u) \<in> set (regex_matches r)"
      from "1.IH" [OF Some [unfolded m] refl refl this] obtain a c b
        where "r = a @ ''package:'' @ n @ c # b" "is_space c"
        by blast
      then have "content = (a0 @ ''package:'' @ n' @ ws @ ''uid:'' @ u' @ a) @ ''package:'' @ n @ c # b
                 \<and> is_space c"
        using c0 by simp
      then show ?thesis by blast
    qed
  qed
qed

text \<open>
  A name is resolved only from a listing whose text holds \<open>package:NAME\<close> followed by
  white space.
\<close>

lemma GetAppUid_loop_no_entry_text:
  assumes "\<not> (\<exists>a c b. s = a @ ''package:'' @ app @ c # b \<and> is_space c)"
  shows "GetAppUid_loop app s = None"
proof (rule GetAppUid_loop_absent, rule notI)
  assume "app \<in> fst ` set (regex_matches s)"
  then obtain u where "(app, u) \<in> set (regex_matches s)" by force
  from regex_matches_text [OF this] assms show False by blast
qed

lemma entry_text_occurs_iff:
  "entry_text_occurs name s \<longleftrightarrow> (\<exists>a c b. s = a @ ''package:'' @ name @ c # b \<and> is_space c)"
proof (induction s)
  case Nil
  then show ?case by simp
next
  case (Cons x xs)
  have here: "(case match_literal (''package:'' @ name) (x # xs) of
                 Some (c # b) \<Rightarrow> is_space c | _ \<Rightarrow> False)
              \<longleftrightarrow> (\<exists>c b. x # xs = (''package:'' @ name) @ c # b \<and> is_space c)"
  proof -
    have ml: "match_literal (''package:'' @ name) (''package:'' @ name @ r) = Some r" for r
      by (simp only: match_literal_Some_iff append_assoc)
    show ?thesis
      by (auto simp del: match_literal.simps append.simps
          simp add: match_literal_Some_iff ml split: option.splits list.splits)
  qed
  have "(\<exists>a c b. x # xs = a @ ''package:'' @ name @ c # b \<and> is_space c)
        \<longleftrightarrow> (\<exists>c b. x # xs = (''package:'' @ name) @ c # b \<and> is_space c)
            \<or> (\<exists>a c b. xs = a @ ''package:'' @ name @ c # b \<and> is_space c)"
  proof
    assume "\<exists>a c b. x # xs = a @ ''package:'' @ name @ c # b \<and> is_space c"
    then obtain a c b where e: "x # xs = a @ ''package:'' @ name @ c # b" and sp: "is_space c"
      by blast
    show "(\<exists>c b. x # xs = (''package:'' @ name) @ c # b \<and> is_space c)
            \<or> (\<exists>a c b. xs = a @ ''package:'' @ name @ c # b \<and> is_space c)"
    proof (cases a)
      case Nil
      then have "x # xs = (''package:'' @ name) @ c # b" using e by simp
      then show ?thesis using sp by blast
    next
      case (Cons y a')
      then have "xs = a' @ ''package:'' @ name @ c # b" using e by simp
      then show ?thesis using sp by blast
    qed
  next
    assume "(\<exists>c b. x # xs = (''package:'' @ name) @ c # b \<and> is_space c)
            \<or> (\<exists>a c b. xs = a @ ''package:'' @ name @ c # b \<and> is_space c)"
    then show "\<exists>a c b. x # xs = a @ ''package:'' @ name @ c # b \<and> is_space c"
    proof
      assume "\<exists>c b. x # xs = (''package:'' @ name) @ c # b \<and> is_space c"
      then obtain c b where "x # xs = [] @ ''package:'' @ name @ c # b \<and> is_space c" by auto
      then show ?thesis by blast
    next
      assume "\<exists>a c b. xs = a @ ''package:'' @ name @ c # b \<and> is_space c"
      then obtain a c b where "x # xs = (x # a) @ ''package:'' @ name @ c # b \<and> is_space c"
        by auto
      then show ?thesis by blast
    qed
  qed
  then show ?case using here Cons.IH by (simp del: match_literal.simps append.simps)
qed

text \<open>
  Claim C3, as amended. Let the package listing hold a line \<open>package:NAME uid:UID\<close> (at
  the start of the listing or after a line break, and ended by a line break or the end
  of the listing), where \<open>NAME\<close> is a non-empty string of word characters and dots and
  \<open>UID\<close> is a decimal number below \<open>2 ^ 32\<close>, and let it be the first entry for \<open>NAME\<close>:
  the text \<open>package:NAME\<close> followed by a white-space character does not occur before
  the line. Then resolving \<open>NAME\<close> returns exactly \<open>UID\<close>, whatever follows the line.
  Resolving a name for which the text \<open>package:NAME\<close> followed by a white-space
  character occurs nowhere in the listing returns not-found.
\<close>

theorem GetAppUid_resolves_listed_name:
  "(pm_list_packages env = Some (pre @ ''package:'' @ name @ '' uid:'' @ uid @ post)
      \<and> name \<noteq> [] \<and> (\<forall>c\<in>set name. is_name_char c)
      \<and> uid \<noteq> [] \<and> (\<forall>c\<in>set uid. is_digit c) \<and> decimal_value uid < 2 ^ 32
      \<and> (pre = [] \<or> last pre = newline) \<and> (post = [] \<or> hd post = newline)
      \<and> \<not> (\<exists>a c b. pre = a @ ''package:'' @ name @ c # b \<and> is_space c)
    \<longrightarrow> fst (GetAppUid env name w) = Some (word_of_int (decimal_value uid))
        \<and> uint (word_of_int (decimal_value uid) :: uint32_t) = decimal_value uid)
   \<and> (pm_list_packages env = Some content
      \<and> \<not> (\<exists>a c b. content = a @ ''package:'' @ app @ c # b \<and> is_space c)
    \<longrightarrow> fst (GetAppUid env app w) = None)"
proof (intro conjI impI)
  assume h: "pm_list_packages env = Some (pre @ ''package:'' @ name @ '' uid:'' @ uid @ post)
      \<and> name \<noteq> [] \<and> (\<forall>c\<in>set name. is_name_char c)
      \<and> uid \<noteq> [] \<and> (\<forall>c\<in>set uid. is_digit c) \<and> decimal_value uid < 2 ^ 32
      \<and> (pre = [] \<or> last pre = newline) \<and> (post = [] \<or> hd post = newline)
      \<and> \<not> (\<exists>a c b. pre = a @ ''package:'' @ name @ c # b \<and> is_space c)"
  then have p: "ParseUint uid = Some (word_of_int (decimal_value uid))"
    by (simp add: ParseUint_digits)
  have first: "GetAppUid_loop name pre = None"
    using h by (intro GetAppUid_loop_no_entry_text) simp
  have "GetAppUid_loop name (pre @ ''package:'' @ name @ '' uid:'' @ uid @ post) =
          (case GetAppUid_loop name pre of Some v' \<Rightarrow> Some v'
           | None \<Rightarrow> Some (word_of_int (decimal_value uid)))"
    using h p by (intro GetAppUid_loop_resolves_line) simp_all
  then have "GetAppUid_loop name (pre @ ''package:'' @ name @ '' uid:'' @ uid @ post) =
          Some (word_of_int (decimal_value uid))"
    by (simp only: first option.case)
  then show "fst (GetAppUid env name w) = Some (word_of_int (decimal_value uid))"
    using h by (simp only: GetAppUid_eq fst_conv option.case)
  show "uint (word_of_int (decimal_value uid) :: uint32_t) = decimal_value uid"
    using h by (simp add: uint_decimal_value)
next
  assume h: "pm_list_packages env = Some content
      \<and> \<not> (\<exists>a c b. content = a @ ''package:'' @ app @ c # b \<and> is_space c)"
  then have "GetAppUid_loop app content = None"
    by (intro GetAppUid_loop_no_entry_text) simp
  then show "fst (GetAppUid env app w) = None"
    using h by (simp add: GetAppUid_eq)
qed

lemmas char_class_defs = is_digit_def is_word_def is_space_def is_name_char_def newline_def

lemmas uid_eval = GetAppUid_eq GetAppUid_loop.simps regex_matches.simps regex_match_here_def
  ParseUint_def decimal_value_def digit_value_def char_class_defs

theorem GetAppUid_resolves_listed_name_witness:
  "pm_list_packages (example_env\<lparr>pm_list_packages := Some
       ''package:com.example.app2 uid:10111\<newline>package:com.example.app uid:10123\<newline>package:com.example.app uid:99\<newline>''\<rparr>)
     = Some (''package:com.example.app2 uid:10111\<newline>'' @ ''package:'' @ ''com.example.app''
             @ '' uid:'' @ ''10123'' @ ''\<newline>package:com.example.app uid:99\<newline>'')
   \<and> fst (GetAppUid (example_env\<lparr>pm_list_packages := Some
       ''package:com.example.app2 uid:10111\<newline>package:com.example.app uid:10123\<newline>package:com.example.app uid:99\<newline>''\<rparr>)
       ''com.example.app'' example_world) = Some 10123
   \<and> fst (GetAppUid (example_env\<lparr>pm_list_packages := Some
       ''package:com.example.app2 uid:10111\<newline>package:com.example.app uid:10123\<newline>package:com.example.app uid:99\<newline>''\<rparr>)
       ''com.example'' example_world) = None"
proof -
  let ?pre = "''package:com.example.app2 uid:10111\<newline>''"
  let ?post = "''\<newline>package:com.example.app uid:99\<newline>''"
  let ?content = "?pre @ ''package:'' @ ''com.example.app'' @ '' uid:'' @ ''10123'' @ ?post"
  let ?env = "example_env\<lparr>pm_list_packages := Some
       ''package:com.example.app2 uid:10111\<newline>package:com.example.app uid:10123\<newline>package:com.example.app uid:99\<newline>''\<rparr>"
  have l: "pm_list_packages ?env = Some ?content" by simp
  have n: "''com.example.app'' \<noteq> [] \<and> (\<forall>c\<in>set ''com.example.app''. is_name_char c)"
    by (simp add: char_class_defs)
  have u: "''10123'' \<noteq> [] \<and> (\<forall>c\<in>set ''10123''. is_digit c) \<and> decimal_value ''10123'' < 2 ^ 32"
    by (simp add: char_class_defs decimal_value_def digit_value_def)
  have b: "(?pre = [] \<or> last ?pre = newline) \<and> (?post = [] \<or> hd ?post = newline)"
    by (simp add: newline_def)
  have f: "\<not> (\<exists>a c b. ?pre = a @ ''package:'' @ ''com.example.app'' @ c # b \<and> is_space c)"
    unfolding entry_text_occurs_iff [symmetric] by (simp add: char_class_defs)
  have g: "\<not> (\<exists>a c b. ?content = a @ ''package:'' @ ''com.example'' @ c # b \<and> is_space c)"
    unfolding entry_text_occurs_iff [symmetric] by (simp add: char_class_defs)
  note t = GetAppUid_resolves_listed_name [where env = ?env and pre = ?pre
      and name = "''com.example.app''" and uid = "''10123''" and post = ?post
      and w = example_world and content = ?content and app = "''com.example''"]
  have 1: "fst (GetAppUid ?env ''com.example.app'' example_world)
             = Some (word_of_int (decimal_value ''10123''))"
    using t l n u b f by blast
  have 2: "fst (GetAppUid ?env ''com.example'' example_world) = None"
    using t l g by blast
  have d: "decimal_value ''10123'' = 10123" by (simp add: decimal_value_def digit_value_def)
  show ?thesis using l 1 2 by (simp add: d)
qed

theorem GetAppUid_hyphen_name_counterexample:
  "fst (GetAppUid (example_env\<lparr>pm_list_packages := Some ''package:my-app uid:10001\<newline>''\<rparr>)
          ''my-app'' example_world) = None
   \<and> fst (GetAppUid (example_env\<lparr>pm_list_packages := Some ''package:com.big uid:4294967296\<newline>''\<rparr>)
          ''com.big'' example_world) = None"
  by (simp add: example_env_def uid_eval)

text \<open>
  Claim C9. The expression's first group matches word characters and dots only: every
  match has a non-empty name made of them. So an application name with any other
  character (a hyphen, say) is never resolved, whatever the listing holds, also when
  the listing has the line \<open>package:NAME uid:UID\<close> for it.
\<close>

theorem GetAppUid_rejects_other_characters:
  "(\<forall>n u. (n, u) \<in> set (regex_matches content) \<longrightarrow> n \<noteq> [] \<and> list_all is_name_char n)
   \<and> ((\<exists>c\<in>set app. \<not> is_name_char c) \<longrightarrow> fst (GetAppUid env app w) = None)"
proof (intro conjI allI impI)
  fix n u
  assume "(n, u) \<in> set (regex_matches content)"
  then have "n \<noteq> [] \<and> (\<forall>c\<in>set n. is_name_char c)" by (rule regex_matches_name)
  then show "n \<noteq> []" and "list_all is_name_char n" by (simp_all add: list_all_iff)
next
  assume "\<exists>c\<in>set app. \<not> is_name_char c"
  then have "GetAppUid_loop app s = None" for s by (rule GetAppUid_loop_bad_name)
  then show "fst (GetAppUid env app w) = None"
    by (simp add: GetAppUid_eq split: option.splits)
qed

theorem GetAppUid_rejects_other_characters_witness:
  "(\<exists>c\<in>set ''com.my-app''. \<not> is_name_char c)
   \<and> pm_list_packages (example_env\<lparr>pm_list_packages :=
         Some ''package:com.android.shell uid:2000\<newline>package:com.my-app uid:10124\<newline>''\<rparr>)
       = Some (''package:com.android.shell uid:2000\<newline>'' @ ''package:'' @ ''com.my-app''
               @ '' uid:'' @ ''10124'' @ ''\<newline>'')
   \<and> fst (GetAppUid (example_env\<lparr>pm_list_packages :=
         Some ''package:com.android.shell uid:2000\<newline>package:com.my-app uid:10124\<newline>''\<rparr>)
         ''com.my-app'' example_world) = None"
  using GetAppUid_rejects_other_characters [of "[]" "''com.my-app''"
      "example_env\<lparr>pm_list_packages :=
         Some ''package:com.android.shell uid:2000\<newline>package:com.my-app uid:10124\<newline>''\<rparr>"
      example_world]
  by (simp add: example_env_def char_class_defs)

subsection \<open>The two branches of api-prepare\<close>

lemma SetProperty_eq:
  "SetProperty env key val w =
     (SetProperty_ok env key val,
      w\<lparr>properties := (if SetProperty_ok env key val then (properties w)(key \<mapsto> val)
                        else properties w),
        calls := calls w @ [Call_SetProperty key val]\<rparr>)"
  by (simp add: SetProperty_def log_call_def Let_def)


lemma WriteTracepointsToFile_eq:
  "WriteTracepointsToFile env path w =
     (WriteTracepointsToFile_ok env path,
      w\<lparr>calls := calls w @ [Call_WriteTracepointsToFile path]\<rparr>)"
  by (simp add: WriteTracepointsToFile_def log_call_def)

lemma PrepareCommand_Run_parsed:
  "PrepareCommand_ParseOptions env args PrepareCommand_init = (True, cmd) \<Longrightarrow>
   PrepareCommand_Run env args w = PrepareCommand_enable env cmd w"
  by (simp add: PrepareCommand_Run_def)




lemmas prepare_parse_eval = PrepareCommand_ParseOptions_def PrepareCommand_init_def
  prepare_option_formats_def example_PreprocessOptions_def PullUintValue_def UINT64_MAX_def


lemma PrepareCommand_enable_durable:
  assumes "13 \<le> GetAndroidVersion env" and "prepare_app_name cmd \<noteq> []"
    and "prepare_days cmd \<noteq> 0"
  shows "PrepareCommand_enable env cmd w =
     (case GetAppUid env (prepare_app_name cmd) w of
        (None, w1) \<Rightarrow> (False, w1)
      | (Some uid, w1) \<Rightarrow>
          (case SetProperty env ''persist.simpleperf.profile_app_uid''
                  (to_string (unat uid)) w1 of
             (False, w2) \<Rightarrow> (False, w2)
           | (True, w2) \<Rightarrow>
               (case SetProperty env ''persist.simpleperf.profile_app_expiration_time''
                       (to_string (unat (expiration_time (prepare_days cmd) (time_now env))))
                       w2 of
                  (False, w3) \<Rightarrow> (False, w3)
                | (True, w3) \<Rightarrow>
                    WriteTracepointsToFile env ''/data/local/tmp/tracepoint_events'' w3)))"
proof -
  have c: "13 \<le> GetAndroidVersion env \<and> prepare_app_name cmd \<noteq> [] \<and> prepare_days cmd \<noteq> 0"
    using assms by simp
  show ?thesis
    unfolding PrepareCommand_enable_def Let_def using c by (rule if_P)
qed

lemma GetAppUid_world:
  "snd (GetAppUid env app w) = w\<lparr>calls := calls w @ [Call_popen ''pm list packages -U'']\<rparr>"
  by (simp add: GetAppUid_eq)

text \<open>
  Claim C8. In the durable-grant branch with the uid resolved, the handler queries the
  package manager, then writes the uid property, then (only if that write succeeded)
  the expiration property, then (only if both writes succeeded) the tracepoint file,
  in this order and nothing else. It returns success exactly when both writes and the
  tracepoint file succeed; so when either property write fails it returns failure and
  the tracepoint file is not written.
\<close>

theorem durable_grant_writes_uid_then_expiration:
  assumes "PrepareCommand_ParseOptions env args PrepareCommand_init = (True, cmd)"
    and "13 \<le> GetAndroidVersion env" and "prepare_app_name cmd \<noteq> []"
    and "prepare_days cmd \<noteq> 0"
    and "fst (GetAppUid env (prepare_app_name cmd) w) = Some uid"
  shows "calls (snd (PrepareCommand_Run env args w)) =
           calls w @
           [Call_popen ''pm list packages -U'',
            Call_SetProperty ''persist.simpleperf.profile_app_uid'' (to_string (unat uid))] @
           (if SetProperty_ok env ''persist.simpleperf.profile_app_uid'' (to_string (unat uid))
            then Call_SetProperty ''persist.simpleperf.profile_app_expiration_time''
                   (to_string (unat (expiration_time (prepare_days cmd) (time_now env)))) #
                 (if SetProperty_ok env ''persist.simpleperf.profile_app_expiration_time''
                       (to_string (unat (expiration_time (prepare_days cmd) (time_now env))))
                  then [Call_WriteTracepointsToFile ''/data/local/tmp/tracepoint_events'']
                  else [])
            else [])
         \<and> fst (PrepareCommand_Run env args w) =
             (SetProperty_ok env ''persist.simpleperf.profile_app_uid'' (to_string (unat uid))
              \<and> SetProperty_ok env ''persist.simpleperf.profile_app_expiration_time''
                    (to_string (unat (expiration_time (prepare_days cmd) (time_now env))))
              \<and> WriteTracepointsToFile_ok env ''/data/local/tmp/tracepoint_events'')"
proof -
  obtain r w1 where g: "GetAppUid env (prepare_app_name cmd) w = (r, w1)"
    by (cases "GetAppUid env (prepare_app_name cmd) w")
  have r: "r = Some uid" using assms(5) g by simp
  have w1: "w1 = w\<lparr>calls := calls w @ [Call_popen ''pm list packages -U'']\<rparr>"
    using GetAppUid_world [of env "prepare_app_name cmd" w] g by simp
  have run: "PrepareCommand_Run env args w = PrepareCommand_enable env cmd w"
    using assms(1) by (rule PrepareCommand_Run_parsed)
  show ?thesis
    unfolding run PrepareCommand_enable_durable [OF assms(2-4)] g r
    by (simp add: SetProperty_eq WriteTracepointsToFile_eq w1)
qed

theorem durable_grant_writes_uid_then_expiration_witness:
  "PrepareCommand_ParseOptions example_env
        [''--app'', ''com.example.app'', ''--days'', ''30''] PrepareCommand_init
      = (True, \<lparr>prepare_app_name = ''com.example.app'', prepare_days = 30\<rparr>)
   \<and> fst (GetAppUid example_env ''com.example.app'' example_world) = Some 10123
   \<and> calls (snd (PrepareCommand_Run example_env
        [''--app'', ''com.example.app'', ''--days'', ''30''] example_world))
      = [Call_popen ''pm list packages -U'',
         Call_SetProperty ''persist.simpleperf.profile_app_uid'' ''10123'',
         Call_SetProperty ''persist.simpleperf.profile_app_expiration_time'' ''1702592000'',
         Call_WriteTracepointsToFile ''/data/local/tmp/tracepoint_events'']
   \<and> fst (PrepareCommand_Run example_env
        [''--app'', ''com.example.app'', ''--days'', ''30''] example_world)"
proof -
  have p: "PrepareCommand_ParseOptions example_env
        [''--app'', ''com.example.app'', ''--days'', ''30''] PrepareCommand_init
      = (True, \<lparr>prepare_app_name = ''com.example.app'', prepare_days = 30\<rparr>)"
    by (simp add: example_env_def prepare_parse_eval)
  have u: "fst (GetAppUid example_env ''com.example.app'' example_world) = Some 10123"
    by (simp add: example_env_def uid_eval)
  have e: "expiration_time 30 1700000000 = 1702592000"
    by (simp add: expiration_time_def builtin_mul_overflow_eq builtin_add_overflow_eq)
  have s: "to_string 10123 = ''10123''" "to_string 1702592000 = ''1702592000''"
    by (simp_all add: to_string.simps digit_char_def)
  show ?thesis
    using durable_grant_writes_uid_then_expiration
      [of example_env "[''--app'', ''com.example.app'', ''--days'', ''30'']"
        "\<lparr>prepare_app_name = ''com.example.app'', prepare_days = 30\<rparr>" example_world 10123,
        OF p] u p
    by (simp add: example_env_def example_world_def e s)
qed

text \<open>
  Claim C10. In the durable-grant branch the query of the package manager is the
  first thing the handler does, before any property write; when the uid is not
  resolved the handler returns failure having done nothing else: no property is
  written or changed.
\<close>

theorem durable_grant_resolves_uid_first:
  assumes "PrepareCommand_ParseOptions env args PrepareCommand_init = (True, cmd)"
    and "13 \<le> GetAndroidVersion env" and "prepare_app_name cmd \<noteq> []"
    and "prepare_days cmd \<noteq> 0"
  shows "take (Suc (length (calls w))) (calls (snd (PrepareCommand_Run env args w))) =
           calls w @ [Call_popen ''pm list packages -U'']
         \<and> (fst (GetAppUid env (prepare_app_name cmd) w) = None \<longrightarrow>
              PrepareCommand_Run env args w =
                (False, w\<lparr>calls := calls w @ [Call_popen ''pm list packages -U'']\<rparr>)
              \<and> properties (snd (PrepareCommand_Run env args w)) = properties w)"
proof -
  obtain r w1 where g: "GetAppUid env (prepare_app_name cmd) w = (r, w1)"
    by (cases "GetAppUid env (prepare_app_name cmd) w")
  have w1: "w1 = w\<lparr>calls := calls w @ [Call_popen ''pm list packages -U'']\<rparr>"
    using GetAppUid_world [of env "prepare_app_name cmd" w] g by simp
  have run: "PrepareCommand_Run env args w = PrepareCommand_enable env cmd w"
    using assms(1) by (rule PrepareCommand_Run_parsed)
  show ?thesis
  proof (cases r)
    case None
    then show ?thesis
      unfolding run PrepareCommand_enable_durable [OF assms(2-4)] g
      by (simp add: w1)
  next
    case (Some uid)
    then show ?thesis
      unfolding run PrepareCommand_enable_durable [OF assms(2-4)] g
      by (simp add: SetProperty_eq WriteTracepointsToFile_eq w1)
  qed
qed

theorem durable_grant_resolves_uid_first_witness:
  "PrepareCommand_ParseOptions
        (example_env\<lparr>pm_list_packages := Some ''package:com.android.shell uid:2000\<newline>''\<rparr>)
        [''--app'', ''com.example.app'', ''--days'', ''30''] PrepareCommand_init
      = (True, \<lparr>prepare_app_name = ''com.example.app'', prepare_days = 30\<rparr>)
   \<and> fst (GetAppUid
        (example_env\<lparr>pm_list_packages := Some ''package:com.android.shell uid:2000\<newline>''\<rparr>)
        ''com.example.app'' example_world) = None
   \<and> PrepareCommand_Run
        (example_env\<lparr>pm_list_packages := Some ''package:com.android.shell uid:2000\<newline>''\<rparr>)
        [''--app'', ''com.example.app'', ''--days'', ''30''] example_world
      = (False, example_world\<lparr>calls := [Call_popen ''pm list packages -U'']\<rparr>)"
proof -
  let ?env = "example_env\<lparr>pm_list_packages := Some ''package:com.android.shell uid:2000\<newline>''\<rparr>"
  have p: "PrepareCommand_ParseOptions ?env
        [''--app'', ''com.example.app'', ''--days'', ''30''] PrepareCommand_init
      = (True, \<lparr>prepare_app_name = ''com.example.app'', prepare_days = 30\<rparr>)"
    by (simp add: example_env_def prepare_parse_eval)
  have u: "fst (GetAppUid ?env ''com.example.app'' example_world) = None"
    by (simp add: example_env_def uid_eval)
  show ?thesis
    using durable_grant_resolves_uid_first
      [of ?env "[''--app'', ''com.example.app'', ''--days'', ''30'']"
        "\<lparr>prepare_app_name = ''com.example.app'', prepare_days = 30\<rparr>" example_world,
        OF p] u p
    by (simp add: example_env_def example_world_def)
qed

subsection \<open>Option parsing of api-collect\<close>

lemma PullValue_absent:
  "name \<notin> fst ` set options \<Longrightarrow> PullValue name options = (None, options)"
  by (induction options) (auto split: prod.splits)

lemma PullValue_distinct:
  "distinct (map fst options) \<Longrightarrow>
   PullValue name options = (map_of options name, filter (\<lambda>kv. fst kv \<noteq> name) options)"
proof (induction options)
  case Nil
  then show ?case by simp
next
  case (Cons kv options)
  obtain k v where kv: "kv = (k, v)" by (cases kv)
  show ?case
  proof (cases "k = name")
    case True
    then have "name \<notin> fst ` set options" using Cons.prems kv by auto
    then have "filter (\<lambda>kv. fst kv \<noteq> name) options = options"
      by (auto simp: filter_id_conv)
    then show ?thesis using True kv by simp
  next
    case False
    then show ?thesis using Cons kv by simp
  qed
qed

text \<open>
  Claim C7. Take an api-collect invocation given neither \<open>--in-app\<close> nor \<open>--app\<close>: the
  preprocessor either rejects the command line or yields, each at most once, only
  options among \<open>-o\<close>, \<open>--out-fd\<close> and \<open>--stop-signal-fd\<close> (and no ordered option).
  Then option parsing returns false, the command returns failure, and the world is
  left as it was: the run-in-app-context helper is not called.
\<close>

theorem collect_without_app_fails_before_context_switch:
  assumes "\<And>options ordered.
      PreprocessOptions env args (GetApiCollectCmdOptionFormats env) = Some (options, ordered) \<Longrightarrow>
      ordered = [] \<and> distinct (map fst options)
      \<and> fst ` set options \<subseteq> {''-o'', ''--out-fd'', ''--stop-signal-fd''}"
  shows "(\<exists>cmd. CollectCommand_ParseOptions env args CollectCommand_init = Returned (False, cmd))
         \<and> CollectCommand_Run env args w = (Returned False, w)"
proof -
  have "\<exists>cmd. CollectCommand_ParseOptions env args CollectCommand_init = Returned (False, cmd)"
  proof (cases "PreprocessOptions env args (GetApiCollectCmdOptionFormats env)")
    case None
    then show ?thesis by (simp add: CollectCommand_ParseOptions_def)
  next
    case (Some r)
    obtain options ordered where r: "r = (options, ordered)" by (cases r)
    from assms [OF Some [unfolded r]]
    have ord: "ordered = []" and d: "distinct (map fst options)"
      and keys: "fst ` set options \<subseteq> {''-o'', ''--out-fd'', ''--stop-signal-fd''}"
      by simp_all
    have 1: "PullValue ''--app'' options = (None, options)"
      using keys by (intro PullValue_absent) auto
    have "PullValue ''--in-app'' options = (None, options)"
      using keys by (intro PullValue_absent) auto
    then have 2: "PullBoolValue ''--in-app'' options = (False, options)"
      by (simp add: PullBoolValue_def)
    define o3 where "o3 = filter (\<lambda>kv. fst kv \<noteq> ''-o'') options"
    define o4 where "o4 = filter (\<lambda>kv. fst kv \<noteq> ''--out-fd'') o3"
    define o5 where "o5 = filter (\<lambda>kv. fst kv \<noteq> ''--stop-signal-fd'') o4"
    have 3: "PullValue ''-o'' options = (map_of options ''-o'', o3)"
      using d by (simp add: PullValue_distinct o3_def)
    have d3: "distinct (map fst o3)" using d by (simp add: o3_def distinct_map_filter)
    have 4: "PullValue ''--out-fd'' o3 = (map_of o3 ''--out-fd'', o4)"
      using d3 by (simp add: PullValue_distinct o4_def)
    have d4: "distinct (map fst o4)" using d3 by (simp add: o4_def distinct_map_filter)
    have 5: "PullValue ''--stop-signal-fd'' o4 = (map_of o4 ''--stop-signal-fd'', o5)"
      using d4 by (simp add: PullValue_distinct o5_def)
    have "set o5 = {}"
      using keys by (auto simp: o5_def o4_def o3_def)
    then have e: "o5 = []" by simp
    show ?thesis
      using Some r ord
      by (simp add: CollectCommand_ParseOptions_def 1 2 3 4 5 e CollectCommand_init_def Let_def
          split: option.splits)
  qed
  then obtain cmd
    where "CollectCommand_ParseOptions env args CollectCommand_init = Returned (False, cmd)" ..
  then show ?thesis by (simp add: CollectCommand_Run_def)
qed

theorem collect_without_app_fails_before_context_switch_witness:
  "PreprocessOptions example_env [''-o'', ''out.zip''] (GetApiCollectCmdOptionFormats example_env)
     = Some ([(''-o'', \<lparr>str_value = ''out.zip'', uint_value = 0\<rparr>)], [])
   \<and> CollectCommand_ParseOptions example_env [''-o'', ''out.zip''] CollectCommand_init
     = Returned (False, CollectCommand_init\<lparr>output_filepath := ''out.zip''\<rparr>)
   \<and> CollectCommand_Run example_env [''-o'', ''out.zip''] example_world
     = (Returned False, example_world)"
proof -
  have p: "PreprocessOptions example_env [''-o'', ''out.zip'']
             (GetApiCollectCmdOptionFormats example_env)
           = Some ([(''-o'', \<lparr>str_value = ''out.zip'', uint_value = 0\<rparr>)], [])"
    by (simp add: example_env_def example_PreprocessOptions_def)
  have q: "CollectCommand_ParseOptions example_env [''-o'', ''out.zip''] CollectCommand_init
     = Returned (False, CollectCommand_init\<lparr>output_filepath := ''out.zip''\<rparr>)"
    by (simp add: CollectCommand_ParseOptions_def p PullBoolValue_def CollectCommand_init_def)
  have "CollectCommand_Run example_env [''-o'', ''out.zip''] example_world
     = (Returned False, example_world)"
    using collect_without_app_fails_before_context_switch
      [of example_env "[''-o'', ''out.zip'']" example_world]
    by (simp add: p)
  then show ?thesis using p q by simp
qed

subsection \<open>Collecting the recording data\<close>

lemma ZipWriter_WriteBytes_cases:
  "ZipWriter_WriteBytes env bytes z = (rc, z') \<Longrightarrow>
   (rc \<noteq> 0 \<and> z' = z) \<or>
   (rc = 0 \<and> (\<exists>name written. current z = Some (name, written)
                \<and> z' = z\<lparr>current := Some (name, written @ bytes)\<rparr>))"
  by (auto simp: ZipWriter_WriteBytes_def kInvalidState_def split: option.splits if_splits)

lemma ZipWriter_FinishEntry_cases:
  "ZipWriter_FinishEntry env z = (rc, z') \<Longrightarrow>
   (rc \<noteq> 0 \<and> z' = z) \<or>
   (rc = 0 \<and> (\<exists>name written. current z = Some (name, written)
                \<and> z' = z\<lparr>entries := entries z @ [(name, written)], current := None\<rparr>))"
  by (auto simp: ZipWriter_FinishEntry_def kInvalidState_def split: option.splits if_splits)

lemma ZipWriter_StartEntry_cases:
  "ZipWriter_StartEntry env name z = (rc, z') \<Longrightarrow>
   (rc \<noteq> 0 \<and> z' = z) \<or> (rc = 0 \<and> z' = z\<lparr>current := Some (name, [])\<rparr>)"
  by (auto simp: ZipWriter_StartEntry_def split: if_splits)

text \<open>A read loop that succeeds has appended exactly the unread bytes to the open entry.\<close>

lemma read_loop_ok:
  "read_loop env path rest off z = (True, z') \<Longrightarrow> current z = Some (name, written) \<Longrightarrow>
   z' = z\<lparr>current := Some (name, written @ rest)\<rparr>"
proof (induction env path rest off z arbitrary: written rule: read_loop.induct)
  case (1 env path rest off z)
  from "1.prems"(1) have nf: "\<not> read_fails env path off"
    by (simp add: read_loop.simps [of env path rest off z] split: if_splits)
  show ?case
  proof (cases "take (64 * 1024) rest = []")
    case True
    then have "rest = []" by simp
    moreover have "z' = z"
      using "1.prems"(1) nf True by (simp add: read_loop.simps [of env path rest off z])
    ultimately show ?thesis using "1.prems"(2) by simp
  next
    case False
    obtain rc z1 where wb: "ZipWriter_WriteBytes env (take (64 * 1024) rest) z = (rc, z1)"
      by (cases "ZipWriter_WriteBytes env (take (64 * 1024) rest) z")
    from "1.prems"(1) nf False wb have rc: "rc = 0"
      by (simp add: read_loop.simps [of env path rest off z] split: if_splits)
    from "1.prems"(1) nf False wb rc
    have rec: "read_loop env path (drop (64 * 1024) rest)
                 (off + length (take (64 * 1024) rest)) z1 = (True, z')"
      by (simp add: read_loop.simps [of env path rest off z])
    from ZipWriter_WriteBytes_cases [OF wb] rc "1.prems"(2)
    have z1: "z1 = z\<lparr>current := Some (name, written @ take (64 * 1024) rest)\<rparr>"
      by auto
    then have c1: "current z1 = Some (name, written @ take (64 * 1024) rest)" by simp
    have "z' = z1\<lparr>current := Some (name, (written @ take (64 * 1024) rest) @ drop (64 * 1024) rest)\<rparr>"
      using "1.IH" [OF nf refl False wb [symmetric] _ rec c1] rc by simp
    then show ?thesis using z1 by simp
  qed
qed

text \<open>Whatever its outcome, a read loop closes no entry and does not rename the open one.\<close>

lemma read_loop_names:
  "read_loop env path rest off z = (ok, z') \<Longrightarrow>
   entries z' = entries z \<and> map_option fst (current z') = map_option fst (current z)"
proof (induction env path rest off z rule: read_loop.induct)
  case (1 env path rest off z)
  show ?case
  proof (cases "read_fails env path off \<or> take (64 * 1024) rest = []")
    case True
    then have "z' = z"
      using "1.prems" by (auto simp: read_loop.simps [of env path rest off z] split: if_splits)
    then show ?thesis by simp
  next
    case False
    then have nf: "\<not> read_fails env path off" and ne: "take (64 * 1024) rest \<noteq> []"
      by simp_all
    obtain rc z1 where wb: "ZipWriter_WriteBytes env (take (64 * 1024) rest) z = (rc, z1)"
      by (cases "ZipWriter_WriteBytes env (take (64 * 1024) rest) z")
    have keep: "entries z1 = entries z \<and> map_option fst (current z1) = map_option fst (current z)"
      using ZipWriter_WriteBytes_cases [OF wb] by auto
    show ?thesis
    proof (cases "rc = 0")
      case False
      then have "z' = z1"
        using "1.prems" nf ne wb by (simp add: read_loop.simps [of env path rest off z])
      then show ?thesis using keep by simp
    next
      case True
      then have "read_loop env path (drop (64 * 1024) rest)
                   (off + length (take (64 * 1024) rest)) z1 = (ok, z')"
        using "1.prems" nf ne wb by (simp add: read_loop.simps [of env path rest off z])
      then show ?thesis
        using "1.IH" [OF nf refl ne wb [symmetric] _] True keep by simp
    qed
  qed
qed

lemma collect_entries_skip:
  "\<not> collected w name \<Longrightarrow> collect_entries env w (name # names) z = collect_entries env w names z"
  by (simp add: collected_def Let_def)

lemma collect_entries_step:
  assumes "collected w name"
  shows "collect_entries env w (name # names) z =
     (case ZipWriter_StartEntry env name z of
        (rc, z1) \<Rightarrow>
          if rc \<noteq> 0 then (False, z1)
          else if \<not> OpenReadOnly_ok env (SIMPLEPERF_DATA_DIR @ ''/'' @ name) then (False, z1)
          else
            (case read_loop env (SIMPLEPERF_DATA_DIR @ ''/'' @ name)
                    (file_bytes w (SIMPLEPERF_DATA_DIR @ ''/'' @ name)) 0 z1 of
               (False, z2) \<Rightarrow> (False, z2)
             | (True, z2) \<Rightarrow>
                 (case ZipWriter_FinishEntry env z2 of
                    (rc2, z3) \<Rightarrow>
                      if rc2 \<noteq> 0 then (False, z3)
                      else collect_entries env w names z3)))"
  unfolding collect_entries.simps Let_def
  using assms [unfolded collected_def] by (rule if_not_P)

lemma collect_entries_names:
  "collect_entries env w names z = (ok, z') \<Longrightarrow>
   archive_names z' \<subseteq> archive_names z \<union> {n \<in> set names. collected w n}"
proof (induction names arbitrary: z)
  case Nil
  then show ?case by simp
next
  case (Cons name names)
  show ?case
  proof (cases "collected w name")
    case False
    then show ?thesis using Cons by (auto simp: collect_entries_skip simp del: collect_entries.simps)
  next
    case True
    note step = collect_entries_step [OF True, of env names z]
    obtain rc z1 where se: "ZipWriter_StartEntry env name z = (rc, z1)"
      by (cases "ZipWriter_StartEntry env name z")
    have n1: "archive_names z1 \<subseteq> archive_names z \<union> {name}"
      "rc = 0 \<Longrightarrow> entries z1 = entries z \<and> map_option fst (current z1) = Some name"
      using ZipWriter_StartEntry_cases [OF se]
      by (auto simp: archive_names_def split: option.splits)
    show ?thesis
    proof (cases "rc \<noteq> 0 \<or> \<not> OpenReadOnly_ok env (SIMPLEPERF_DATA_DIR @ ''/'' @ name)")
      case True
      then have "z' = z1" using Cons.prems step se by (auto split: if_splits)
      then show ?thesis using n1(1) \<open>collected w name\<close> by auto
    next
      case False
      then have rc: "rc = 0" and op: "OpenReadOnly_ok env (SIMPLEPERF_DATA_DIR @ ''/'' @ name)"
        by simp_all
      obtain ok2 z2 where rl: "read_loop env (SIMPLEPERF_DATA_DIR @ ''/'' @ name)
                    (file_bytes w (SIMPLEPERF_DATA_DIR @ ''/'' @ name)) 0 z1 = (ok2, z2)"
        by (cases "read_loop env (SIMPLEPERF_DATA_DIR @ ''/'' @ name)
                    (file_bytes w (SIMPLEPERF_DATA_DIR @ ''/'' @ name)) 0 z1")
      have k2: "entries z2 = entries z \<and> map_option fst (current z2) = Some name"
        using read_loop_names [OF rl] n1(2) [OF rc] by simp
      then have n2: "archive_names z2 \<subseteq> archive_names z \<union> {name}"
        by (auto simp: archive_names_def split: option.splits)
      show ?thesis
      proof (cases ok2)
        case False
        then have "z' = z2" using Cons.prems step se rc op rl by simp
        then show ?thesis using n2 \<open>collected w name\<close> by auto
      next
        case True
        obtain rc2 z3 where fe: "ZipWriter_FinishEntry env z2 = (rc2, z3)"
          by (cases "ZipWriter_FinishEntry env z2")
        have n3: "archive_names z3 \<subseteq> archive_names z \<union> {name}"
          using ZipWriter_FinishEntry_cases [OF fe] k2 n2
          by (auto simp: archive_names_def split: option.splits)
        show ?thesis
        proof (cases "rc2 = 0")
          case False
          then have "z' = z3" using Cons.prems step se rc op rl True fe by simp
          then show ?thesis using n3 \<open>collected w name\<close> by auto
        next
          case rc2: True
          then have "collect_entries env w names z3 = (ok, z')"
            using Cons.prems step se rc op rl True fe by simp
          from Cons.IH [OF this] show ?thesis using n3 \<open>collected w name\<close> by auto
        qed
      qed
    qed
  qed
qed

text \<open>
  A loop over the entries that succeeds, started with no entry open, has closed one
  entry for each name it does not skip, in order, holding the bytes of the file.
\<close>

lemma collect_entries_ok:
  "collect_entries env w names z = (True, z') \<Longrightarrow> current z = None \<Longrightarrow>
   z' = z\<lparr>entries := entries z @
            map (\<lambda>n. (n, file_bytes w (SIMPLEPERF_DATA_DIR @ ''/'' @ n)))
              (filter (collected w) names)\<rparr>"
proof (induction names arbitrary: z)
  case Nil
  then show ?case by simp
next
  case (Cons name names)
  show ?case
  proof (cases "collected w name")
    case False
    then show ?thesis
      using Cons by (simp add: collect_entries_skip del: collect_entries.simps)
  next
    case True
    note step = collect_entries_step [OF True, of env names z]
    let ?path = "SIMPLEPERF_DATA_DIR @ ''/'' @ name"
    obtain rc z1 where se: "ZipWriter_StartEntry env name z = (rc, z1)"
      by (cases "ZipWriter_StartEntry env name z")
    have rc: "rc = 0" using Cons.prems(1) step se by (auto split: if_splits)
    have op: "OpenReadOnly_ok env ?path" using Cons.prems(1) step se rc by (auto split: if_splits)
    have z1: "z1 = z\<lparr>current := Some (name, [])\<rparr>"
      using ZipWriter_StartEntry_cases [OF se] rc by simp
    obtain ok2 z2 where rl: "read_loop env ?path (file_bytes w ?path) 0 z1 = (ok2, z2)"
      by (cases "read_loop env ?path (file_bytes w ?path) 0 z1")
    have ok2: "ok2" using Cons.prems(1) step se rc op rl by (cases ok2) simp_all
    have z2: "z2 = z\<lparr>current := Some (name, file_bytes w ?path)\<rparr>"
      using read_loop_ok [OF rl [unfolded ok2 eqTrueI [OF ok2]], of name "[]"] z1 by simp
    obtain rc2 z3 where fe: "ZipWriter_FinishEntry env z2 = (rc2, z3)"
      by (cases "ZipWriter_FinishEntry env z2")
    have rc2: "rc2 = 0" using Cons.prems(1) step se rc op rl ok2 fe by (auto split: if_splits)
    have z3: "z3 = z\<lparr>entries := entries z @ [(name, file_bytes w ?path)], current := None\<rparr>"
      using ZipWriter_FinishEntry_cases [OF fe] rc2 z2 by auto
    have "collect_entries env w names z3 = (True, z')"
      using Cons.prems(1) step se rc op rl ok2 fe rc2 by simp
    from Cons.IH [OF this] z3 have
      "z' = z3\<lparr>entries := entries z3 @
            map (\<lambda>n. (n, file_bytes w (SIMPLEPERF_DATA_DIR @ ''/'' @ n)))
              (filter (collected w) names)\<rparr>"
      by simp
    then show ?thesis using z3 True Cons.prems(2) by simp
  qed
qed

lemma lookup_path_entry:
  "data_dir w = Some dir \<Longrightarrow> lookup_path w (SIMPLEPERF_DATA_DIR @ ''/'' @ name) = map_of dir name"
proof -
  assume d: "data_dir w = Some dir"
  have "match_literal (SIMPLEPERF_DATA_DIR @ ''/'') ((SIMPLEPERF_DATA_DIR @ ''/'') @ name) = Some name"
    by (simp only: match_literal_Some_iff)
  then have "match_literal (SIMPLEPERF_DATA_DIR @ ''/'') (SIMPLEPERF_DATA_DIR @ ''/'' @ name) = Some name"
    by simp
  then show ?thesis using d by (simp add: lookup_path_def)
qed

lemma CollectRecordingData_cases:
  assumes "CollectRecordingData env cmd w = (ok, w')"
  shows "(\<not> ok \<and> w' = w \<and> \<not> Fdopen_ok env (out_fd cmd))
       \<or> (\<exists>ok1 z1 z. collect_entries env w (GetEntriesInDir w SIMPLEPERF_DATA_DIR) ZipWriter_init
                      = (ok1, z1)
            \<and> w' = w\<lparr>archive := Some z\<rparr>
            \<and> (if ok1 then ZipWriter_Finish env z1 = (if ok then 0 else Finish_rc env, z)
                         \<and> (ok \<longleftrightarrow> Finish_rc env = 0)
                else \<not> ok \<and> z = z1))"
proof (cases "Fdopen_ok env (out_fd cmd)")
  case False
  then show ?thesis using assms by (auto simp: CollectRecordingData_def)
next
  case True
  obtain ok1 z1 where c: "collect_entries env w (GetEntriesInDir w SIMPLEPERF_DATA_DIR)
      ZipWriter_init = (ok1, z1)"
    by (cases "collect_entries env w (GetEntriesInDir w SIMPLEPERF_DATA_DIR) ZipWriter_init")
  show ?thesis
  proof (cases ok1)
    case False
    then show ?thesis using assms True c by (auto simp: CollectRecordingData_def)
  next
    case ok1: True
    obtain rc z2 where f: "ZipWriter_Finish env z1 = (rc, z2)"
      by (cases "ZipWriter_Finish env z1")
    have "rc = Finish_rc env" using f by (auto simp: ZipWriter_Finish_def split: if_splits)
    then show ?thesis
      using assms True c ok1 f by (auto simp: CollectRecordingData_def)
  qed
qed

text \<open>Collecting touches nothing but the archive.\<close>

lemma CollectRecordingData_frame:
  assumes "CollectRecordingData env cmd w = (ok, w')"
  shows "data_dir w' = data_dir w \<and> calls w' = calls w \<and> properties w' = properties w"
  using CollectRecordingData_cases [OF assms] by auto

lemma ZipWriter_Finish_names:
  "ZipWriter_Finish env z = (rc, z') \<Longrightarrow> archive_names z' = archive_names z"
  by (auto simp: ZipWriter_Finish_def archive_names_def split: if_splits)

lemma CollectRecordingData_names:
  assumes "CollectRecordingData env cmd w = (ok, w')" and "archive w = None"
    and "archive w' = Some z"
  shows "archive_names z \<subseteq> {n \<in> set (GetEntriesInDir w SIMPLEPERF_DATA_DIR). collected w n}"
proof -
  from CollectRecordingData_cases [OF assms(1)] assms(2,3)
  obtain ok1 z1 where c: "collect_entries env w (GetEntriesInDir w SIMPLEPERF_DATA_DIR)
      ZipWriter_init = (ok1, z1)"
    and z: "if ok1 then ZipWriter_Finish env z1 = (if ok then 0 else Finish_rc env, z) else z = z1"
    by auto
  have "archive_names z = archive_names z1"
    using z ZipWriter_Finish_names [of env z1 _ z] by (cases ok1) auto
  moreover have "archive_names ZipWriter_init = {}"
    by (simp add: archive_names_def ZipWriter_init_def)
  ultimately show ?thesis using collect_entries_names [OF c] by simp
qed

text \<open>
  Claim C4. Whatever the outcome of the collection, the archive it wrote holds no entry
  (closed or still open) whose name starts with \<open>TemporaryFile-\<close>, and none for a
  directory entry that is not a regular file.
\<close>

theorem temporary_and_non_regular_entries_never_archived:
  assumes "CollectRecordingData env cmd w = (ok, w')" and "archive w = None"
    and "archive w' = Some z"
  shows "(StartsWith name ''TemporaryFile-'' \<longrightarrow> name \<notin> archive_names z)
         \<and> (\<not> IsRegularFile w (SIMPLEPERF_DATA_DIR @ ''/'' @ name) \<longrightarrow> name \<notin> archive_names z)
         \<and> (data_dir w = Some dir \<and> distinct (map fst dir) \<and> (name, nd) \<in> set dir
              \<and> (\<forall>bytes. nd \<noteq> RegularFile bytes) \<longrightarrow> name \<notin> archive_names z)"
proof -
  note sub = CollectRecordingData_names [OF assms]
  have a: "name \<in> archive_names z \<Longrightarrow> collected w name" using sub by auto
  have 1: "StartsWith name ''TemporaryFile-'' \<longrightarrow> name \<notin> archive_names z"
    using a by (auto simp: collected_def)
  have 2: "\<not> IsRegularFile w (SIMPLEPERF_DATA_DIR @ ''/'' @ name) \<longrightarrow> name \<notin> archive_names z"
    using a by (auto simp: collected_def)
  have 3: "data_dir w = Some dir \<and> distinct (map fst dir) \<and> (name, nd) \<in> set dir
              \<and> (\<forall>bytes. nd \<noteq> RegularFile bytes) \<longrightarrow> name \<notin> archive_names z"
  proof (intro impI)
    assume h: "data_dir w = Some dir \<and> distinct (map fst dir) \<and> (name, nd) \<in> set dir
              \<and> (\<forall>bytes. nd \<noteq> RegularFile bytes)"
    then have "map_of dir name = Some nd" by simp
    then have "lookup_path w (SIMPLEPERF_DATA_DIR @ ''/'' @ name) = Some nd"
      using h lookup_path_entry [of w dir name] by simp
    then have "\<not> IsRegularFile w (SIMPLEPERF_DATA_DIR @ ''/'' @ name)"
      using h by (cases nd) (simp_all add: IsRegularFile_def)
    then show "name \<notin> archive_names z" using 2 by simp
  qed
  show ?thesis using 1 2 3 by simp
qed

lemmas collect_eval = CollectRecordingData_def GetEntriesInDir_def SIMPLEPERF_DATA_DIR_def
  ZipWriter_init_def StartsWith_def IsRegularFile_def lookup_path_def file_bytes_def
  ZipWriter_StartEntry_def ZipWriter_WriteBytes_def ZipWriter_FinishEntry_def
  ZipWriter_Finish_def read_loop.simps

theorem temporary_and_non_regular_entries_never_archived_witness:
  "CollectRecordingData example_env (CollectCommand_init\<lparr>in_app_context := True, out_fd := 5\<rparr>)
       (example_world\<lparr>data_dir := Some [(''TemporaryFile-42'', RegularFile ''x''),
                                         (''perf.data'', RegularFile ''abc''),
                                         (''lock'', Directory)]\<rparr>)
     = (True, example_world\<lparr>data_dir := Some [(''TemporaryFile-42'', RegularFile ''x''),
                                         (''perf.data'', RegularFile ''abc''),
                                         (''lock'', Directory)],
          archive := Some \<lparr>entries = [(''perf.data'', ''abc'')], current = None, finished = True\<rparr>\<rparr>)
   \<and> StartsWith ''TemporaryFile-42'' ''TemporaryFile-''
   \<and> ''TemporaryFile-42'' \<notin> archive_names \<lparr>entries = [(''perf.data'', ''abc'')], current = None, finished = True\<rparr>
   \<and> ''lock'' \<notin> archive_names \<lparr>entries = [(''perf.data'', ''abc'')], current = None, finished = True\<rparr>"
proof -
  let ?dir = "[(''TemporaryFile-42'', RegularFile ''x''), (''perf.data'', RegularFile ''abc''),
               (''lock'', Directory)]"
  let ?w = "example_world\<lparr>data_dir := Some ?dir\<rparr>"
  let ?z = "\<lparr>entries = [(''perf.data'', ''abc'')], current = None, finished = True\<rparr>"
  let ?cmd = "CollectCommand_init\<lparr>in_app_context := True, out_fd := 5\<rparr>"
  have run: "CollectRecordingData example_env ?cmd ?w = (True, ?w\<lparr>archive := Some ?z\<rparr>)"
    by (simp add: example_env_def example_world_def CollectCommand_init_def collect_eval)
  have none: "archive ?w = None" by (simp add: example_world_def)
  have some: "archive (?w\<lparr>archive := Some ?z\<rparr>) = Some ?z" by simp
  have pre: "StartsWith ''TemporaryFile-42'' ''TemporaryFile-''" by (simp add: StartsWith_def)
  have d: "data_dir ?w = Some ?dir \<and> distinct (map fst ?dir) \<and> (''lock'', Directory) \<in> set ?dir
            \<and> (\<forall>bytes. Directory \<noteq> RegularFile bytes)"
    by simp
  from temporary_and_non_regular_entries_never_archived
    [OF run none some, of "''TemporaryFile-42''" ?dir Directory] pre
  have t: "''TemporaryFile-42'' \<notin> archive_names ?z" by blast
  from temporary_and_non_regular_entries_never_archived
    [OF run none some, of "''lock''" ?dir Directory] d
  have l: "''lock'' \<notin> archive_names ?z" by blast
  show ?thesis using run pre t l by simp
qed

lemma collected_iff_regular:
  assumes "data_dir w = Some dir" and "distinct (map fst dir)" and "(n, nd) \<in> set dir"
  shows "collected w n \<longleftrightarrow> \<not> StartsWith n ''TemporaryFile-'' \<and> (\<exists>b. nd = RegularFile b)"
    and "nd = RegularFile b \<Longrightarrow> file_bytes w (SIMPLEPERF_DATA_DIR @ ''/'' @ n) = b"
proof -
  have "map_of dir n = Some nd" using assms(2,3) by simp
  then have l: "lookup_path w (SIMPLEPERF_DATA_DIR @ ''/'' @ n) = Some nd"
    using assms(1) lookup_path_entry [of w dir n] by simp
  show "collected w n \<longleftrightarrow> \<not> StartsWith n ''TemporaryFile-'' \<and> (\<exists>b. nd = RegularFile b)"
    unfolding collected_def IsRegularFile_def l by (cases nd) simp_all
  show "nd = RegularFile b \<Longrightarrow> file_bytes w (SIMPLEPERF_DATA_DIR @ ''/'' @ n) = b"
    unfolding file_bytes_def l by simp
qed

lemma collected_entries_of_dir:
  assumes "data_dir w = Some dir" and "distinct (map fst dir)"
  shows "set es \<subseteq> set dir \<Longrightarrow>
    map (\<lambda>n. (n, file_bytes w (SIMPLEPERF_DATA_DIR @ ''/'' @ n))) (filter (collected w) (map fst es))
    = [(n, b). (n, RegularFile b) \<leftarrow> es, \<not> StartsWith n ''TemporaryFile-'']"
proof (induction es)
  case Nil
  then show ?case by simp
next
  case (Cons e es)
  obtain n nd where e: "e = (n, nd)" by (cases e)
  have mem: "(n, nd) \<in> set dir" using Cons.prems e by simp
  note c = collected_iff_regular [OF assms mem]
  have ih: "map (\<lambda>n. (n, file_bytes w (SIMPLEPERF_DATA_DIR @ ''/'' @ n)))
              (filter (collected w) (map fst es))
            = [(n, b). (n, RegularFile b) \<leftarrow> es, \<not> StartsWith n ''TemporaryFile-'']"
    using Cons by simp
  show ?case
  proof (cases nd)
    case (RegularFile b)
    then show ?thesis using e c(1) c(2) [OF RegularFile] ih by simp
  next
    case Directory
    then show ?thesis using e c(1) ih by simp
  next
    case OtherNode
    then show ?thesis using e c(1) ih by simp
  qed
qed

lemma recordings_other_name:
  "name \<notin> fst ` set es \<Longrightarrow>
   filter (\<lambda>e. fst e = name) [(n, b). (n, RegularFile b) \<leftarrow> es, \<not> StartsWith n p] = []"
  by (induction es) (auto split: node.splits)

lemma recordings_exactly_once:
  "distinct (map fst es) \<Longrightarrow> (name, RegularFile bytes) \<in> set es \<Longrightarrow> \<not> StartsWith name p \<Longrightarrow>
   filter (\<lambda>e. fst e = name) [(n, b). (n, RegularFile b) \<leftarrow> es, \<not> StartsWith n p]
   = [(name, bytes)]"
proof (induction es)
  case Nil
  then show ?case by simp
next
  case (Cons e es)
  show ?case
  proof (cases "e = (name, RegularFile bytes)")
    case True
    then have "name \<notin> fst ` set es" using Cons.prems(1) by auto
    then show ?thesis using True Cons.prems(3) recordings_other_name [of name es p] by simp
  next
    case False
    then have mem: "(name, RegularFile bytes) \<in> set es" using Cons.prems(2) by simp
    then have "name \<in> fst ` set es" by force
    then have "fst e \<noteq> name" using Cons.prems(1) by auto
    then show ?thesis
      using Cons.IH [OF _ mem Cons.prems(3)] Cons.prems(1)
      by (cases e) (auto split: node.splits)
  qed
qed

lemma CollectRecordingData_ok:
  assumes "CollectRecordingData env cmd w = (True, w')"
  shows "\<exists>z1. collect_entries env w (GetEntriesInDir w SIMPLEPERF_DATA_DIR) ZipWriter_init
                = (True, z1)
              \<and> w' = w\<lparr>archive := Some (z1\<lparr>finished := True\<rparr>)\<rparr>"
proof -
  have fd: "Fdopen_ok env (out_fd cmd)"
    using assms by (auto simp: CollectRecordingData_def split: if_splits)
  obtain ok1 z1 where c: "collect_entries env w (GetEntriesInDir w SIMPLEPERF_DATA_DIR)
      ZipWriter_init = (ok1, z1)"
    by (cases "collect_entries env w (GetEntriesInDir w SIMPLEPERF_DATA_DIR) ZipWriter_init")
  have ok1: "ok1" using assms fd c by (cases ok1) (simp_all add: CollectRecordingData_def)
  have "Finish_rc env = 0 \<and> w' = w\<lparr>archive := Some (z1\<lparr>finished := True\<rparr>)\<rparr>"
    using assms fd c ok1
    by (auto simp: CollectRecordingData_def ZipWriter_Finish_def split: if_splits)
  then show ?thesis using c ok1 by simp
qed

text \<open>
  Claim C1. After a successful collection from a data directory \<open>dir\<close> (whose entries
  have distinct names, as a directory's do), the archive is finalized, has no entry
  left open, and its entries are, in listing order, exactly the regular files of
  \<open>dir\<close> whose names do not start with \<open>TemporaryFile-\<close>, each under its own name with
  its own bytes. So each such file is found in the archive exactly once, with
  byte-identical contents.
\<close>

theorem archive_holds_each_recording_exactly_once:
  assumes "CollectRecordingData env cmd w = (True, w')"
    and "data_dir w = Some dir" and "distinct (map fst dir)"
  shows "\<exists>z. archive w' = Some z \<and> finished z \<and> current z = None
           \<and> entries z = [(n, b). (n, RegularFile b) \<leftarrow> dir, \<not> StartsWith n ''TemporaryFile-'']
           \<and> (\<forall>name bytes. (name, RegularFile bytes) \<in> set dir
                  \<and> \<not> StartsWith name ''TemporaryFile-''
                \<longrightarrow> filter (\<lambda>e. fst e = name) (entries z) = [(name, bytes)])"
proof -
  from CollectRecordingData_ok [OF assms(1)]
  obtain z1 where c: "collect_entries env w (GetEntriesInDir w SIMPLEPERF_DATA_DIR)
      ZipWriter_init = (True, z1)"
    and w': "w' = w\<lparr>archive := Some (z1\<lparr>finished := True\<rparr>)\<rparr>"
    by blast
  define z where "z = z1\<lparr>finished := True\<rparr>"
  have names: "GetEntriesInDir w SIMPLEPERF_DATA_DIR = map fst dir"
    using assms(2) by (simp add: GetEntriesInDir_def)
  have "z1 = ZipWriter_init\<lparr>entries := entries ZipWriter_init @
            map (\<lambda>n. (n, file_bytes w (SIMPLEPERF_DATA_DIR @ ''/'' @ n)))
              (filter (collected w) (map fst dir))\<rparr>"
    using collect_entries_ok [OF c [unfolded names]]
    by (simp add: ZipWriter_init_def)
  then have z1: "z1 = \<lparr>entries = [(n, b). (n, RegularFile b) \<leftarrow> dir,
                                   \<not> StartsWith n ''TemporaryFile-''],
                        current = None, finished = False\<rparr>"
    using collected_entries_of_dir [OF assms(2,3), of dir]
    by (simp add: ZipWriter_init_def)
  note z = z_def
  have e: "entries z = [(n, b). (n, RegularFile b) \<leftarrow> dir, \<not> StartsWith n ''TemporaryFile-'']"
    using z z1 by simp
  have once: "\<forall>name bytes. (name, RegularFile bytes) \<in> set dir
                  \<and> \<not> StartsWith name ''TemporaryFile-''
                \<longrightarrow> filter (\<lambda>e. fst e = name) (entries z) = [(name, bytes)]"
    unfolding e using recordings_exactly_once [OF assms(3)] by blast
  show ?thesis
    using w' z z1 e once by (intro exI [of _ z]) simp
qed

theorem archive_holds_each_recording_exactly_once_witness:
  "CollectRecordingData example_env (CollectCommand_init\<lparr>in_app_context := True, out_fd := 5\<rparr>)
       example_world
     = (True, example_world\<lparr>archive :=
          Some \<lparr>entries = [(''perf.data'', ''abc'')], current = None, finished = True\<rparr>\<rparr>)
   \<and> data_dir example_world
     = Some [(''perf.data'', RegularFile ''abc''), (''TemporaryFile-42'', RegularFile ''x'')]
   \<and> filter (\<lambda>e. fst e = ''perf.data'') [(''perf.data'', ''abc'')] = [(''perf.data'', ''abc'')]"
proof -
  let ?cmd = "CollectCommand_init\<lparr>in_app_context := True, out_fd := 5\<rparr>"
  let ?z = "\<lparr>entries = [(''perf.data'', ''abc'')], current = None, finished = True\<rparr>"
  let ?dir = "[(''perf.data'', RegularFile ''abc''), (''TemporaryFile-42'', RegularFile ''x'')]"
  have run: "CollectRecordingData example_env ?cmd example_world
               = (True, example_world\<lparr>archive := Some ?z\<rparr>)"
    by (simp add: example_env_def example_world_def CollectCommand_init_def collect_eval)
  have d: "data_dir example_world = Some ?dir" by (simp add: example_world_def)
  have dist: "distinct (map fst ?dir)" by simp
  from archive_holds_each_recording_exactly_once [OF run d dist]
  have "filter (\<lambda>e. fst e = ''perf.data'') (entries ?z) = [(''perf.data'', ''abc'')]"
    by (simp add: StartsWith_def)
  then show ?thesis using run d by simp
qed


subsection \<open>Cleaning up after the collection\<close>

lemma RemoveRecordingData_eq:
  "RemoveRecordingData env w =
     (RunCmd_ok env [''rm'', ''-rf'', ''simpleperf_data''],
      w\<lparr>data_dir := (if RunCmd_ok env [''rm'', ''-rf'', ''simpleperf_data''] then None
                      else data_dir w),
        calls := calls w @ [Call_RunCmd [''rm'', ''-rf'', ''simpleperf_data'']]\<rparr>)"
  by (simp add: RemoveRecordingData_def RunCmd_def log_call_def Let_def SIMPLEPERF_DATA_DIR_def)

lemma CollectCommand_Run_killed:
  assumes "CollectCommand_ParseOptions env args CollectCommand_init = Returned (True, cmd)"
    and "in_app_context cmd"
    and "stop_signal_thread env (stop_signal_fd cmd)"
  shows "CollectCommand_Run env args w =
           (Exited 1, world_when_killed env (log_call (Call_StopSignalThread (stop_signal_fd cmd)) w))"
  using assms by (simp add: CollectCommand_Run_def HandleStopSignal_def Let_def)

lemma CollectCommand_Run_in_app:
  assumes "CollectCommand_ParseOptions env args CollectCommand_init = Returned (True, cmd)"
    and "in_app_context cmd"
    and "\<not> stop_signal_thread env (stop_signal_fd cmd)"
    and "CollectRecordingData env (cmd\<lparr>stop_signal_fd := - 1\<rparr>)
           (log_call (Call_StopSignalThread (stop_signal_fd cmd)) w) = (ok, w2)"
  shows "CollectCommand_Run env args w =
           (if ok then (Returned (fst (RemoveRecordingData env w2)), snd (RemoveRecordingData env w2))
            else (Returned False, w2))"
  using assms
  by (cases "RemoveRecordingData env w2"; cases ok)
    (simp_all add: CollectCommand_Run_def HandleStopSignal_def Let_def)

text \<open>
  Claim C5, as amended. Take an inner-mode run. If the stop-signal watcher ends the
  process during it (its read on the stop descriptor returns: the descriptor is unset,
  closed or readable), the process exits with status 1 and the handler does not
  return. Otherwise: when collecting the recording data succeeds, the handler next
  runs \<^verbatim>\<open>rm -rf simpleperf_data\<close> and returns what that command returns; when the
  removal succeeds, and so whenever the handler returns success, the data directory
  does not exist afterwards. When collecting fails, the handler returns failure, runs
  no command, and the data directory is as it was.
\<close>

theorem cleanup_only_after_successful_collection:
  assumes "CollectCommand_ParseOptions env args CollectCommand_init = Returned (True, cmd)"
    and "in_app_context cmd"
    and "CollectRecordingData env (cmd\<lparr>stop_signal_fd := - 1\<rparr>)
           (log_call (Call_StopSignalThread (stop_signal_fd cmd)) w) = (ok, w2)"
  shows "(stop_signal_thread env (stop_signal_fd cmd) \<longrightarrow>
            fst (CollectCommand_Run env args w) = Exited 1)
         \<and> (\<not> stop_signal_thread env (stop_signal_fd cmd) \<longrightarrow>
            (ok \<longrightarrow>
               fst (CollectCommand_Run env args w)
                 = Returned (RunCmd_ok env [''rm'', ''-rf'', ''simpleperf_data''])
               \<and> calls (snd (CollectCommand_Run env args w))
                 = calls w @ [Call_StopSignalThread (stop_signal_fd cmd),
                              Call_RunCmd [''rm'', ''-rf'', ''simpleperf_data'']]
               \<and> (RunCmd_ok env [''rm'', ''-rf'', ''simpleperf_data'']
                    \<longrightarrow> data_dir (snd (CollectCommand_Run env args w)) = None))
            \<and> (\<not> ok \<longrightarrow>
               CollectCommand_Run env args w = (Returned False, w2)
               \<and> data_dir w2 = data_dir w
               \<and> calls w2 = calls w @ [Call_StopSignalThread (stop_signal_fd cmd)])
            \<and> (fst (CollectCommand_Run env args w) = Returned True
                 \<longrightarrow> data_dir (snd (CollectCommand_Run env args w)) = None))"
proof (intro conjI impI)
  assume "stop_signal_thread env (stop_signal_fd cmd)"
  then show "fst (CollectCommand_Run env args w) = Exited 1"
    using CollectCommand_Run_killed [OF assms(1,2)] by simp
next
  assume ns: "\<not> stop_signal_thread env (stop_signal_fd cmd)"
  note run = CollectCommand_Run_in_app [OF assms(1,2) ns assms(3)]
  have frame: "data_dir w2 = data_dir w"
    "calls w2 = calls w @ [Call_StopSignalThread (stop_signal_fd cmd)]"
    using CollectRecordingData_frame [OF assms(3)] by (simp_all add: log_call_def)
  {
    assume ok
    then show "fst (CollectCommand_Run env args w)
                 = Returned (RunCmd_ok env [''rm'', ''-rf'', ''simpleperf_data''])"
      and "calls (snd (CollectCommand_Run env args w))
                 = calls w @ [Call_StopSignalThread (stop_signal_fd cmd),
                              Call_RunCmd [''rm'', ''-rf'', ''simpleperf_data'']]"
      using run frame by (simp_all add: RemoveRecordingData_eq)
  }
  {
    assume "ok" and "RunCmd_ok env [''rm'', ''-rf'', ''simpleperf_data'']"
    then show "data_dir (snd (CollectCommand_Run env args w)) = None"
      using run by (simp add: RemoveRecordingData_eq)
  }
  {
    assume "\<not> ok"
    then show "CollectCommand_Run env args w = (Returned False, w2)"
      and "data_dir w2 = data_dir w"
      and "calls w2 = calls w @ [Call_StopSignalThread (stop_signal_fd cmd)]"
      using run frame by simp_all
  }
  {
    assume "fst (CollectCommand_Run env args w) = Returned True"
    then show "data_dir (snd (CollectCommand_Run env args w)) = None"
      using run by (cases ok) (simp_all add: RemoveRecordingData_eq split: if_splits)
  }
qed

lemmas collect_parse_eval = CollectCommand_ParseOptions_def CollectCommand_init_def
  example_PreprocessOptions_def PullBoolValue_def static_cast_int_def

theorem cleanup_only_after_successful_collection_witness:
  "CollectCommand_ParseOptions example_env
       [''--in-app'', ''--out-fd'', ''5'', ''--stop-signal-fd'', ''6''] CollectCommand_init
     = Returned (True, CollectCommand_init\<lparr>in_app_context := True, out_fd := 5,
                                              stop_signal_fd := 6\<rparr>)
   \<and> \<not> stop_signal_thread example_env 6
   \<and> CollectCommand_Run example_env
       [''--in-app'', ''--out-fd'', ''5'', ''--stop-signal-fd'', ''6''] example_world
     = (Returned True,
        example_world\<lparr>data_dir := None,
          archive := Some \<lparr>entries = [(''perf.data'', ''abc'')], current = None, finished = True\<rparr>,
          calls := [Call_StopSignalThread 6, Call_RunCmd [''rm'', ''-rf'', ''simpleperf_data'']]\<rparr>)
   \<and> CollectCommand_ParseOptions example_env [''--in-app'', ''--out-fd'', ''5''] CollectCommand_init
     = Returned (True, CollectCommand_init\<lparr>in_app_context := True, out_fd := 5\<rparr>)
   \<and> stop_signal_thread example_env (- 1)
   \<and> fst (CollectCommand_Run example_env [''--in-app'', ''--out-fd'', ''5''] example_world)
     = Exited 1"
proof -
  let ?args = "[''--in-app'', ''--out-fd'', ''5'', ''--stop-signal-fd'', ''6'']"
  let ?cmd = "CollectCommand_init\<lparr>in_app_context := True, out_fd := 5, stop_signal_fd := 6\<rparr>"
  let ?z = "\<lparr>entries = [(''perf.data'', ''abc'')], current = None, finished = True\<rparr>"
  have p: "CollectCommand_ParseOptions example_env ?args CollectCommand_init = Returned (True, ?cmd)"
    by (simp add: example_env_def collect_parse_eval)
  have i: "in_app_context ?cmd" by simp
  have ns: "\<not> stop_signal_thread example_env (stop_signal_fd ?cmd)"
    by (simp add: stop_signal_thread_def example_env_def)
  then have ns6: "\<not> stop_signal_thread example_env 6" by simp
  have c: "CollectRecordingData example_env (?cmd\<lparr>stop_signal_fd := - 1\<rparr>)
             (log_call (Call_StopSignalThread (stop_signal_fd ?cmd)) example_world)
           = (True, example_world\<lparr>archive := Some ?z, calls := [Call_StopSignalThread 6]\<rparr>)"
    by (simp add: example_env_def example_world_def CollectCommand_init_def log_call_def
        collect_eval)
  have r: "CollectCommand_Run example_env ?args example_world
     = (Returned True,
        example_world\<lparr>data_dir := None, archive := Some ?z,
          calls := [Call_StopSignalThread 6, Call_RunCmd [''rm'', ''-rf'', ''simpleperf_data'']]\<rparr>)"
    using cleanup_only_after_successful_collection [OF p i c] ns
      CollectCommand_Run_in_app [OF p i ns c]
    by (simp add: RemoveRecordingData_eq example_env_def example_world_def)
  let ?args' = "[''--in-app'', ''--out-fd'', ''5'']"
  let ?cmd' = "CollectCommand_init\<lparr>in_app_context := True, out_fd := 5\<rparr>"
  have p': "CollectCommand_ParseOptions example_env ?args' CollectCommand_init
              = Returned (True, ?cmd')"
    by (simp add: example_env_def collect_parse_eval)
  have i': "in_app_context ?cmd'" by simp
  have fd': "stop_signal_fd ?cmd' = - 1" by (simp add: CollectCommand_init_def)
  have k: "stop_signal_thread example_env (- 1)" by (simp add: stop_signal_thread_def)
  obtain ok' w2' where c': "CollectRecordingData example_env (?cmd'\<lparr>stop_signal_fd := - 1\<rparr>)
             (log_call (Call_StopSignalThread (stop_signal_fd ?cmd')) example_world) = (ok', w2')"
    by (cases "CollectRecordingData example_env (?cmd'\<lparr>stop_signal_fd := - 1\<rparr>)
             (log_call (Call_StopSignalThread (stop_signal_fd ?cmd')) example_world)")
  have e: "fst (CollectCommand_Run example_env ?args' example_world) = Exited 1"
    using cleanup_only_after_successful_collection [OF p' i' c'] k fd' by simp
  show ?thesis using p ns6 r p' k e by simp
qed

theorem collected_but_not_removed_counterexample:
  "\<not> stop_signal_thread (example_env\<lparr>RunCmd_ok := (\<lambda>args. False)\<rparr>) 6
   \<and> fst (CollectRecordingData (example_env\<lparr>RunCmd_ok := (\<lambda>args. False)\<rparr>)
          (CollectCommand_init\<lparr>in_app_context := True, out_fd := 5, stop_signal_fd := - 1\<rparr>)
          (example_world\<lparr>calls := [Call_StopSignalThread 6]\<rparr>))
   \<and> CollectCommand_Run (example_env\<lparr>RunCmd_ok := (\<lambda>args. False)\<rparr>)
       [''--in-app'', ''--out-fd'', ''5'', ''--stop-signal-fd'', ''6''] example_world
     = (Returned False,
        example_world\<lparr>
          archive := Some \<lparr>entries = [(''perf.data'', ''abc'')], current = None, finished = True\<rparr>,
          calls := [Call_StopSignalThread 6, Call_RunCmd [''rm'', ''-rf'', ''simpleperf_data'']]\<rparr>)
   \<and> data_dir (snd (CollectCommand_Run (example_env\<lparr>RunCmd_ok := (\<lambda>args. False)\<rparr>)
       [''--in-app'', ''--out-fd'', ''5'', ''--stop-signal-fd'', ''6''] example_world))
     = Some [(''perf.data'', RegularFile ''abc''), (''TemporaryFile-42'', RegularFile ''x'')]"
  by (simp add: example_env_def example_world_def CollectCommand_Run_def collect_parse_eval
      HandleStopSignal_def stop_signal_thread_def log_call_def collect_eval
      RemoveRecordingData_def RunCmd_def)

end
